theory Spec2Isabelle
  imports Main "HOL-Library.AList" "HOL-Library.Sublist"
begin

section \<open>Values and exceptions\<close>

text \<open>
  JavaScript values as far as the runtime inspects them: \<open>typeof v === 'function'\<close> is
  \<open>VFun\<close>, objects and functions are compared by reference (their number), and
  \<open>NaN\<close> is the one value that is not strictly equal to itself.
\<close>

datatype val =
    VUndefined | VNull | VBool bool | VNum int | VNaN | VStr string
  | VFun nat | VObj nat

definition strictEq :: "val \<Rightarrow> val \<Rightarrow> bool" where
  "strictEq a b = (a \<noteq> VNaN \<and> a = b)"

datatype exn = Exn string

section \<open>Scheduler (core/scheduler)\<close>

text \<open>
  The module \<open>./scheduler\<close> that the reactivity and the diffing modules import (source:
  the second module of \<open>src/core/resource.ts\<close>).
\<close>

datatype Priority = HIGH | NORMAL | LOW

text \<open>
  A task's callback is a closure. The closures the runtime itself schedules are the ones
  built by a signal's writer (\<open>Notify s\<close>: run the subscribers of signal \<open>s\<close>); every
  other callback is user code, named by a number and given its meaning by the environment.
\<close>

datatype callback = Notify nat | UserTask nat

record Task =
  task_id :: nat
  callback :: callback
  priority :: Priority

record SignalValue =
  sv_value :: val
  subscribers :: "nat list"

text \<open>
  The module-level variables of the scheduler and of the reactivity module, the host's
  clock (\<open>performance.now()\<close>, in milliseconds), its microtask and animation-frame
  queues as far as the scheduler uses them (how many calls of \<open>processTaskQueue\<close> and
  how many continuations are waiting there), the console, and the state of the
  application (\<open>user\<close>). Time passes while user code runs: a callback may leave any
  value in \<open>now\<close>.
\<close>

record 'u world =
  signals :: "nat \<rightharpoonup> SignalValue"
  nextSignal :: nat
  currentEffect :: "nat option"
  taskQueue :: "Priority \<Rightarrow> Task list"
  nextTaskId :: nat
  isScheduled :: bool
  currentFrameDeadline :: nat
  now :: nat
  microtasks :: nat
  animationFrames :: nat
  console :: "exn list"
  user :: 'u

text \<open>
  User code: the bodies of effects (by effect), the callbacks of user tasks, and the
  updater functions that may be passed to a writer. A body runs to completion and either
  returns or throws; what it did before throwing stays done. An updater is taken to
  return a value and do nothing else.
\<close>

record 'u env =
  fns :: "nat \<Rightarrow> 'u world \<Rightarrow> exn option \<times> 'u world"
  callbacks :: "nat \<Rightarrow> 'u world \<Rightarrow> exn option \<times> 'u world"
  call :: "nat \<Rightarrow> val \<Rightarrow> val"

definition frameLength :: nat where
  "frameLength = 16"

definition scheduleTask :: "callback \<Rightarrow> Priority \<Rightarrow> 'u world \<Rightarrow> nat \<times> 'u world" where
  "scheduleTask cb p w =
     (let task = \<lparr>task_id = nextTaskId w, callback = cb, priority = p\<rparr>;
          w1 = w\<lparr>nextTaskId := nextTaskId w + 1,
                 taskQueue := (taskQueue w)(p := taskQueue w p @ [task])\<rparr>;
          w2 = (if \<not> isScheduled w1
                then w1\<lparr>isScheduled := True,
                        currentFrameDeadline := now w1 + frameLength,
                        microtasks := microtasks w1 + 1\<rparr>
                else w1)
      in (task_id task, w2))"

text \<open>\<open>queue.findIndex\<close> followed by \<open>queue.splice(index, 1)\<close>.\<close>

fun removeFirstId :: "nat \<Rightarrow> Task list \<Rightarrow> Task list option" where
  "removeFirstId i [] = None"
| "removeFirstId i (t # ts) =
     (if task_id t = i then Some ts
      else map_option ((#) t) (removeFirstId i ts))"

fun cancelIn :: "Priority list \<Rightarrow> nat \<Rightarrow> 'u world \<Rightarrow> bool \<times> 'u world" where
  "cancelIn [] i w = (False, w)"
| "cancelIn (p # ps) i w =
     (case removeFirstId i (taskQueue w p) of
        Some q \<Rightarrow> (True, w\<lparr>taskQueue := (taskQueue w)(p := q)\<rparr>)
      | None \<Rightarrow> cancelIn ps i w)"

definition cancelTask :: "nat \<Rightarrow> 'u world \<Rightarrow> bool \<times> 'u world" where
  "cancelTask i w = cancelIn [HIGH, NORMAL, LOW] i w"

section \<open>Reactivity (core/reactivity)\<close>

text \<open>Source: \<open>unnamed/part_013\<close>, the module that \<open>core/index\<close> exports as \<open>./reactivity\<close>.\<close>

text \<open>\<open>Set.prototype.add\<close>: a set iterates in insertion order and holds no duplicate.\<close>

definition Set_add :: "'a list \<Rightarrow> 'a \<Rightarrow> 'a list" where
  "Set_add xs x = (if x \<in> set xs then xs else xs @ [x])"

definition createSignal :: "val \<Rightarrow> 'u world \<Rightarrow> nat \<times> 'u world" where
  "createSignal initialValue w =
     (nextSignal w,
      w\<lparr>signals := (signals w)(nextSignal w \<mapsto> \<lparr>sv_value = initialValue, subscribers = []\<rparr>),
        nextSignal := nextSignal w + 1\<rparr>)"

text \<open>
  The reader and the writer of signal \<open>s\<close> (the writer is \<open>write'\<close> here:
  \<open>write\<close> is a command of Isabelle). They are closures over the signal, so they
  exist only for a signal that was created; the \<open>None\<close> branch is there for totality.
\<close>

definition read :: "nat \<Rightarrow> 'u world \<Rightarrow> val \<times> 'u world" where
  "read s w =
     (case signals w s of
        None \<Rightarrow> (VUndefined, w)
      | Some sg \<Rightarrow>
          (sv_value sg,
           case currentEffect w of
             None \<Rightarrow> w
           | Some e \<Rightarrow> w\<lparr>signals := (signals w)(s \<mapsto> sg\<lparr>subscribers := Set_add (subscribers sg) e\<rparr>)\<rparr>))"

definition resolve :: "'u env \<Rightarrow> val \<Rightarrow> val \<Rightarrow> val" where
  "resolve E newValue prev = (case newValue of VFun f \<Rightarrow> call E f prev | _ \<Rightarrow> newValue)"

definition write' :: "'u env \<Rightarrow> nat \<Rightarrow> val \<Rightarrow> 'u world \<Rightarrow> 'u world" where
  "write' E s newValue w =
     (case signals w s of
        None \<Rightarrow> w
      | Some sg \<Rightarrow>
          (let resolvedValue = resolve E newValue (sv_value sg)
           in if \<not> strictEq (sv_value sg) resolvedValue
              then snd (scheduleTask (Notify s) NORMAL
                     (w\<lparr>signals := (signals w)(s \<mapsto> sg\<lparr>sv_value := resolvedValue\<rparr>)\<rparr>))
              else w))"

text \<open>
  The closure \<open>effect\<close> that \<open>createEffect(fn)\<close> builds, for the effect numbered \<open>e\<close>
  with body \<open>fns E e\<close>: mark it current, run the body, clear the mark (also when the
  body throws).
\<close>

definition effect :: "'u env \<Rightarrow> nat \<Rightarrow> 'u world \<Rightarrow> exn option \<times> 'u world" where
  "effect E e w =
     (let (r, w') = fns E e (w\<lparr>currentEffect := Some e\<rparr>)
      in (r, w'\<lparr>currentEffect := None\<rparr>))"

text \<open>
  \<open>createEffect\<close> runs \<open>effect\<close> once and returns \<open>effect\<close> itself; \<open>EffectFn e\<close> is
  that returned function value, and \<open>invoke\<close> calls it.
\<close>

datatype fnref = EffectFn nat

definition createEffect :: "'u env \<Rightarrow> nat \<Rightarrow> 'u world \<Rightarrow> (exn + fnref) \<times> 'u world" where
  "createEffect E e w =
     (case effect E e w of
        (Some x, w') \<Rightarrow> (Inl x, w')
      | (None, w') \<Rightarrow> (Inr (EffectFn e), w'))"

fun invoke :: "'u env \<Rightarrow> fnref \<Rightarrow> 'u world \<Rightarrow> exn option \<times> 'u world" where
  "invoke E (EffectFn e) w = effect E e w"

text \<open>
  The task a writer schedules: copy the subscriber set, call each subscriber in order.
  A subscriber that throws ends the loop; the exception leaves the callback.
\<close>

fun runSubscribers :: "'u env \<Rightarrow> nat list \<Rightarrow> 'u world \<Rightarrow> exn option \<times> 'u world" where
  "runSubscribers E [] w = (None, w)"
| "runSubscribers E (e # es) w =
     (case effect E e w of
        (Some x, w') \<Rightarrow> (Some x, w')
      | (None, w') \<Rightarrow> runSubscribers E es w')"

fun runCallback :: "'u env \<Rightarrow> callback \<Rightarrow> 'u world \<Rightarrow> exn option \<times> 'u world" where
  "runCallback E (Notify s) w =
     (case signals w s of
        None \<Rightarrow> (None, w)
      | Some sg \<Rightarrow> runSubscribers E (subscribers sg) w)"
| "runCallback E (UserTask c) w = callbacks E c w"

section \<open>Draining the queues (processTaskQueue)\<close>

text \<open>
  The \<open>try\<close>/\<open>catch\<close> around \<open>task.callback()\<close>: a thrown exception goes to
  \<open>console.error\<close> and nowhere else.
\<close>

definition report :: "exn option \<Rightarrow> 'u world \<Rightarrow> 'u world" where
  "report r w = (case r of None \<Rightarrow> w | Some x \<Rightarrow> w\<lparr>console := console w @ [x]\<rparr>)"

text \<open>
  The inner \<open>while (queue.length > 0)\<close> loop for one priority. A callback may schedule
  further tasks, so the loop need not end: not returning is \<open>None\<close>. The result is
  whether \<open>processTaskQueue\<close> returned from inside the loop (out of time), the tasks
  executed so far, in order, each with how its callback ended, and the world.
\<close>

partial_function (option) drainQueue ::
  "'u env \<Rightarrow> Priority \<Rightarrow> (nat \<times> exn option) list \<Rightarrow> 'u world
     \<Rightarrow> (bool \<times> (nat \<times> exn option) list \<times> 'u world) option" where
  "drainQueue E p acc w =
     (case taskQueue w p of
        [] \<Rightarrow> Some (False, acc, w)
      | task # rest \<Rightarrow>
          if p \<noteq> HIGH \<and> now w \<ge> currentFrameDeadline w
          then Some (True, acc, w\<lparr>isScheduled := True, animationFrames := animationFrames w + 1\<rparr>)
          else (case runCallback E (callback task) (w\<lparr>taskQueue := (taskQueue w)(p := rest)\<rparr>) of
                  (r, w') \<Rightarrow> drainQueue E p (acc @ [(task_id task, r)]) (report r w')))"

declare drainQueue.simps [code]

text \<open>The outer \<open>for\<close> loop over the priorities, from the one given on.\<close>

fun drainFrom ::
  "'u env \<Rightarrow> Priority list \<Rightarrow> (nat \<times> exn option) list \<Rightarrow> 'u world
     \<Rightarrow> ((nat \<times> exn option) list \<times> 'u world) option" where
  "drainFrom E [] acc w = Some (acc, w)"
| "drainFrom E (p # ps) acc w =
     (case drainQueue E p acc w of
        None \<Rightarrow> None
      | Some (stopped, acc', w') \<Rightarrow>
          if stopped then Some (acc', w') else drainFrom E ps acc' w')"

definition processTaskQueue ::
  "'u env \<Rightarrow> 'u world \<Rightarrow> ((nat \<times> exn option) list \<times> 'u world) option" where
  "processTaskQueue E w = drainFrom E [HIGH, NORMAL, LOW] [] (w\<lparr>isScheduled := False\<rparr>)"


text \<open>All queued tasks, in the order in which a drain with time to spare runs them.\<close>

definition pending :: "'u world \<Rightarrow> Task list" where
  "pending w = taskQueue w HIGH @ taskQueue w NORMAL @ taskQueue w LOW"

text \<open>
  A callback that neither schedules nor cancels a task and does not write to the console.
\<close>

definition quietCb :: "'u env \<Rightarrow> callback \<Rightarrow> bool" where
  "quietCb E c \<longleftrightarrow> (\<forall>w. taskQueue (snd (runCallback E c w)) = taskQueue w
                       \<and> console (snd (runCallback E c w)) = console w)"


text \<open>
  A step from \<open>w\<close> to \<open>w'\<close> that acts on the scheduler only as \<open>scheduleTask\<close> and
  \<open>cancelTask\<close> do (queued tasks may go; tasks may come, at the end of a queue and with
  ids not handed out before), and on the console only by writing to it. A disciplined
  callback makes such a step from every world.
\<close>

definition schedulerStep :: "'u world \<Rightarrow> 'u world \<Rightarrow> bool" where
  "schedulerStep w w' \<longleftrightarrow>
     nextTaskId w \<le> nextTaskId w'
     \<and> (\<forall>p. \<exists>kept new. taskQueue w' p = kept @ new
            \<and> subseq kept (taskQueue w p)
            \<and> (\<forall>t\<in>set new. nextTaskId w \<le> task_id t))
     \<and> (\<exists>ks. console w' = console w @ ks)"

definition disciplinedCb :: "'u env \<Rightarrow> callback \<Rightarrow> bool" where
  "disciplinedCb E c \<longleftrightarrow> (\<forall>w. schedulerStep w (snd (runCallback E c w)))"

text \<open>The ids below \<open>n\<close> in a list of ids: those of tasks scheduled before a given moment.\<close>

definition below :: "nat \<Rightarrow> nat list \<Rightarrow> nat list" where
  "below n ids = filter (\<lambda>i. i < n) ids"

text \<open>
  An entry of a drain's result that stands for task \<open>t\<close>: its id, with what its
  callback returned in the world it was run in.
\<close>

definition outcomeOf :: "'u env \<Rightarrow> Task \<Rightarrow> nat \<times> exn option \<Rightarrow> bool" where
  "outcomeOf E t x \<longleftrightarrow> fst x = task_id t \<and> (\<exists>w. snd x = fst (runCallback E (callback t) w))"

text \<open>The exceptions thrown by the executed tasks, in order.\<close>

fun thrown :: "(nat \<times> exn option) list \<Rightarrow> exn list" where
  "thrown [] = []"
| "thrown ((i, None) # xs) = thrown xs"
| "thrown ((i, Some x) # xs) = x # thrown xs"

text \<open>
  What is to be shown of a drain of queue \<open>p\<close> that went from \<open>acc\<close> and \<open>w\<close>
  to \<open>y\<close>, for disciplined callbacks and the tasks with ids below \<open>n\<close>: those
  executed, in order, followed by those still in the queue, were in the queue in that
  order; no queue gained such a task; at a regular end the queue is empty, at an early one
  the continuation is armed; every exception thrown is on the console.
\<close>

definition drained ::
  "nat \<Rightarrow> 'u env \<Rightarrow> Priority \<Rightarrow> (nat \<times> exn option) list \<Rightarrow> 'u world
     \<Rightarrow> bool \<times> (nat \<times> exn option) list \<times> 'u world \<Rightarrow> bool" where
  "drained n E p acc w y \<longleftrightarrow>
     ((\<forall>c. disciplinedCb E c) \<longrightarrow> n \<le> nextTaskId w \<longrightarrow>
         (\<exists>mid ks. fst (snd y) = acc @ mid
            \<and> n \<le> nextTaskId (snd (snd y))
            \<and> (\<forall>q. subseq (below n (map task_id (taskQueue (snd (snd y)) q)))
                           (below n (map task_id (taskQueue w q))))
            \<and> subseq (below n (map fst mid) @ below n (map task_id (taskQueue (snd (snd y)) p)))
                      (below n (map task_id (taskQueue w p)))
            \<and> (\<not> fst y \<longrightarrow> taskQueue (snd (snd y)) p = [])
            \<and> (fst y \<longrightarrow> isScheduled (snd (snd y))
                           \<and> currentFrameDeadline (snd (snd y)) \<le> now (snd (snd y)))
            \<and> console (snd (snd y)) = console w @ ks
            \<and> subseq (thrown mid) ks))"

text \<open>
  A synchronous turn that calls \<open>scheduleTask\<close> once for each entry of a list, and the
  tasks of priority \<open>p\<close> among them, in scheduling order, when the first id handed out
  is \<open>n\<close>.
\<close>

definition scheduleAll :: "(callback \<times> Priority) list \<Rightarrow> 'u world \<Rightarrow> 'u world" where
  "scheduleAll xs w = fold (\<lambda>(c, p) w. snd (scheduleTask c p w)) xs w"

definition scheduled :: "Priority \<Rightarrow> nat \<Rightarrow> (callback \<times> Priority) list \<Rightarrow> Task list" where
  "scheduled p n xs =
     map (\<lambda>(i, c, q). \<lparr>task_id = i, callback = c, priority = q\<rparr>)
       (filter (\<lambda>(i, c, q). q = p) (List.enumerate n xs))"

section \<open>Elements (core/types, core/component)\<close>

text \<open>
  An \<open>Element\<close> is \<open>{ type, props, children, key, rendered }\<close>. Its type is a tag name
  or a component function (a function value, compared by reference: its number); its
  children are elements, strings, numbers, booleans or \<open>null\<close>.
\<close>

datatype etype = Tag string | Component nat

datatype prim = PNull | PString string | PNumber int | PBoolean bool

datatype element =
  Element (etype: etype) (props: "(string \<times> val) list") (children: "child list")
          (key: val) (rendered: "element option")
and child = ChildElement element | ChildPrim prim

text \<open>
  User code as the reconciler meets it: a component, called with the props, returns an
  element or \<open>null\<close>, or throws; an object has enumerable properties; a function has a
  source text (what \<open>String(f)\<close> gives). The host's text for a number beyond
  \<open>2\<^sup>5\<^sup>3\<close> is left open in the same way.
\<close>

record cenv =
  comps :: "nat \<Rightarrow> (string \<times> val) list \<Rightarrow> exn + element option"
  properties :: "nat \<Rightarrow> (string \<times> val) list"
  fnText :: "nat \<Rightarrow> string"
  bigText :: "int \<Rightarrow> string"

subsection \<open>Strings\<close>

definition digit :: "nat \<Rightarrow> char" where
  "digit d = char_of (48 + d)"

fun digits :: "nat \<Rightarrow> string" where
  "digits n = (if n < 10 then [digit n] else digits (n div 10) @ [digit (n mod 10)])"

definition showInt :: "int \<Rightarrow> string" where
  "showInt i = (if i < 0 then CHR ''-'' # digits (nat (- i)) else digits (nat i))"

text \<open>
  \<open>String(n)\<close> for a number. An integer up to \<open>2\<^sup>5\<^sup>3\<close> in magnitude is a number
  exactly and prints digit by digit. Beyond that a number is rounded, is printed with
  17 significant digits at most, and in exponent notation from \<open>10\<^sup>2\<^sup>1\<close> on
  (\<open>String(1e21)\<close> is \<open>'1e+21'\<close>): there the text is what the environment says.
\<close>

definition numberString :: "cenv \<Rightarrow> int \<Rightarrow> string" where
  "numberString C i = (if abs i \<le> 2 ^ 53 then showInt i else bigText C i)"

text \<open>\<open>String(v)\<close>. Every object prints as a plain object does.\<close>

fun String' :: "cenv \<Rightarrow> val \<Rightarrow> string" where
  "String' C VUndefined = ''undefined''"
| "String' C VNull = ''null''"
| "String' C (VBool b) = (if b then ''true'' else ''false'')"
| "String' C (VNum i) = numberString C i"
| "String' C VNaN = ''NaN''"
| "String' C (VStr s) = s"
| "String' C (VFun f) = fnText C f"
| "String' C (VObj x) = ''[object Object]''"

fun primString :: "cenv \<Rightarrow> prim \<Rightarrow> string" where
  "primString C PNull = ''null''"
| "primString C (PString s) = s"
| "primString C (PNumber i) = numberString C i"
| "primString C (PBoolean b) = (if b then ''true'' else ''false'')"

definition between :: "char \<Rightarrow> char \<Rightarrow> char \<Rightarrow> bool" where
  "between lo hi c \<longleftrightarrow> (of_char lo :: nat) \<le> of_char c \<and> (of_char c :: nat) \<le> of_char hi"

definition toLowerCase :: "string \<Rightarrow> string" where
  "toLowerCase s =
     map (\<lambda>c. if between CHR ''A'' CHR ''Z'' c then char_of (of_char c + (32::nat)) else c) s"

definition startsWith :: "string \<Rightarrow> string \<Rightarrow> bool" where
  "startsWith s p = (take (length p) s = p)"

text \<open>\<open>v == null\<close>, and whether \<open>v\<close> counts as true in a condition.\<close>

definition isNullish :: "val \<Rightarrow> bool" where
  "isNullish v = (v = VNull \<or> v = VUndefined)"

definition truthy :: "val \<Rightarrow> bool" where
  "truthy v = (v \<notin> {VUndefined, VNull, VBool False, VNum 0, VNaN, VStr ''''})"

text \<open>\<open>obj[name]\<close> on a props object.\<close>

definition getProp :: "(string \<times> val) list \<Rightarrow> string \<Rightarrow> val" where
  "getProp ps name = (case map_of ps name of None \<Rightarrow> VUndefined | Some v \<Rightarrow> v)"

section \<open>The render target\<close>

text \<open>
  The document as a store of nodes, numbered in creation order. Every call that the
  runtime makes on the host and that changes the document, or calls back into user code,
  is also written to \<open>calls\<close>; the callbacks handed to \<open>afterLayout\<close> wait in \<open>frames\<close>.
\<close>

datatype nodeType = ELEMENT_NODE | TEXT_NODE

record dnode =
  nodeType :: nodeType
  nodeName :: string
  svg :: bool
  attributes :: "(string \<times> string) list"
  styles :: "(string \<times> val) list"
  listeners :: "(string \<times> val) list"
  parentNode :: "nat option"
  childNodes :: "nat list"
  data :: string

text \<open>
  \<open>RefFrame f node\<close> is the closure \<open>() => newProps.ref(node)\<close> for the function
  \<open>f\<close>; an argument of a call into user code is a node or \<open>null\<close>.
\<close>

datatype frame = RefFrame nat "nat option"

datatype arg = ArgNode nat | ArgNull

datatype domcall =
    CreateElement nat string
  | CreateTextNode nat string
  | SetAttribute nat string string
  | RemoveAttribute nat string
  | AddEventListener nat string val
  | RemoveEventListener nat string val
  | AssignStyle nat string val
  | AppendChild nat nat
  | InsertBefore nat nat nat
  | RemoveChild nat nat
  | ReplaceChild nat nat nat
  | ClearTextContent nat
  | CallFunction nat "arg list"

record dom =
  nodes :: "nat \<Rightarrow> dnode"
  nextNode :: nat
  frames :: "frame list"
  calls :: "domcall list"

definition TypeError :: exn where "TypeError = Exn ''TypeError''"
definition InvalidCharacterError :: exn where "InvalidCharacterError = Exn ''InvalidCharacterError''"
definition HierarchyRequestError :: exn where "HierarchyRequestError = Exn ''HierarchyRequestError''"
definition NotFoundError :: exn where "NotFoundError = Exn ''NotFoundError''"

text \<open>
  A name the host accepts for an element or an attribute (the ASCII part of the XML
  \<open>Name\<close> production; bytes outside ASCII are let through).
\<close>

definition nameStartChar :: "char \<Rightarrow> bool" where
  "nameStartChar c \<longleftrightarrow>
     between CHR ''a'' CHR ''z'' c \<or> between CHR ''A'' CHR ''Z'' c
     \<or> c = CHR '':'' \<or> c = CHR ''_'' \<or> (128::nat) \<le> of_char c"

definition nameChar :: "char \<Rightarrow> bool" where
  "nameChar c \<longleftrightarrow>
     nameStartChar c \<or> between CHR ''0'' CHR ''9'' c \<or> c = CHR ''-'' \<or> c = CHR ''.''"

definition validName :: "string \<Rightarrow> bool" where
  "validName s = (case s of [] \<Rightarrow> False | c # cs \<Rightarrow> nameStartChar c \<and> list_all nameChar cs)"

definition logCall :: "domcall \<Rightarrow> dom \<Rightarrow> dom" where
  "logCall c s = s\<lparr>calls := calls s @ [c]\<rparr>"

definition newNode :: "nodeType \<Rightarrow> string \<Rightarrow> bool \<Rightarrow> string \<Rightarrow> dnode" where
  "newNode t name ns text =
     \<lparr>nodeType = t, nodeName = name, svg = ns, attributes = [], styles = [], listeners = [],
      parentNode = None, childNodes = [], data = text\<rparr>"

text \<open>\<open>document.createElement(tag)\<close> and \<open>document.createElementNS(svg, tag)\<close>.\<close>

definition createElement :: "string \<Rightarrow> bool \<Rightarrow> dom \<Rightarrow> exn + nat \<times> dom" where
  "createElement tag ns s =
     (if \<not> validName tag then Inl InvalidCharacterError
      else Inr (nextNode s,
             logCall (CreateElement (nextNode s) tag)
               (s\<lparr>nodes := (nodes s)(nextNode s := newNode ELEMENT_NODE tag ns ''''),
                  nextNode := nextNode s + 1\<rparr>)))"

definition createTextNode :: "string \<Rightarrow> dom \<Rightarrow> nat \<times> dom" where
  "createTextNode text s =
     (nextNode s,
      logCall (CreateTextNode (nextNode s) text)
        (s\<lparr>nodes := (nodes s)(nextNode s := newNode TEXT_NODE ''#text'' False text),
           nextNode := nextNode s + 1\<rparr>))"

text \<open>Taking a node out of its parent's child list, as every insertion does first.\<close>

definition detach :: "nat \<Rightarrow> dom \<Rightarrow> dom" where
  "detach c s =
     (case parentNode (nodes s c) of
        None \<Rightarrow> s
      | Some q \<Rightarrow>
          (let s1 = s\<lparr>nodes := (nodes s)(q := (nodes s q)\<lparr>childNodes := remove1 c (childNodes (nodes s q))\<rparr>)\<rparr>
           in s1\<lparr>nodes := (nodes s1)(c := (nodes s1 c)\<lparr>parentNode := None\<rparr>)\<rparr>))"

text \<open>
  Whether \<open>a\<close> is \<open>n\<close> or one of its ancestors; the walk up is cut off after \<open>k\<close> steps
  (it is called with the number of nodes there are).
\<close>

fun inclusiveAncestor :: "nat \<Rightarrow> dom \<Rightarrow> nat \<Rightarrow> nat \<Rightarrow> bool" where
  "inclusiveAncestor 0 s a n = (a = n)"
| "inclusiveAncestor (Suc k) s a n =
     (a = n \<or> (case parentNode (nodes s n) of None \<Rightarrow> False | Some q \<Rightarrow> inclusiveAncestor k s a q))"

definition insertInto :: "nat list \<Rightarrow> nat \<Rightarrow> nat option \<Rightarrow> nat list" where
  "insertInto xs c anchor =
     (case anchor of
        None \<Rightarrow> xs @ [c]
      | Some r \<Rightarrow> takeWhile (\<lambda>x. x \<noteq> r) xs @ c # dropWhile (\<lambda>x. x \<noteq> r) xs)"


text \<open>The host's insertion of \<open>c\<close> into \<open>p\<close> before \<open>anchor\<close> (at the end for \<open>None\<close>).\<close>

definition place :: "nat \<Rightarrow> nat \<Rightarrow> nat option \<Rightarrow> dom \<Rightarrow> dom" where
  "place p c anchor s =
     (let s1 = detach c s;
          s2 = s1\<lparr>nodes := (nodes s1)(p := (nodes s1 p)\<lparr>childNodes := insertInto (childNodes (nodes s1 p)) c anchor\<rparr>)\<rparr>
      in s2\<lparr>nodes := (nodes s2)(c := (nodes s2 c)\<lparr>parentNode := Some p\<rparr>)\<rparr>)"

definition appendChild :: "nat \<Rightarrow> nat \<Rightarrow> dom \<Rightarrow> exn + dom" where
  "appendChild p c s =
     (if nodeType (nodes s p) \<noteq> ELEMENT_NODE then Inl HierarchyRequestError
      else if inclusiveAncestor (nextNode s) s c p then Inl HierarchyRequestError
      else Inr (logCall (AppendChild p c) (place p c None s)))"


definition removeChild :: "nat \<Rightarrow> nat \<Rightarrow> dom \<Rightarrow> exn + dom" where
  "removeChild p c s =
     (if parentNode (nodes s c) \<noteq> Some p then Inl NotFoundError
      else Inr (logCall (RemoveChild p c) (detach c s)))"





text \<open>
  Attributes, listeners and styles. Only an element has \<open>setAttribute\<close>,
  \<open>removeAttribute\<close> and \<open>style\<close>; an HTML element lower-cases the attribute's name.
\<close>

definition attrName :: "dom \<Rightarrow> nat \<Rightarrow> string \<Rightarrow> string" where
  "attrName s n name = (if svg (nodes s n) then name else toLowerCase name)"

definition setAttribute :: "nat \<Rightarrow> string \<Rightarrow> string \<Rightarrow> dom \<Rightarrow> exn + dom" where
  "setAttribute n name v s =
     (if nodeType (nodes s n) \<noteq> ELEMENT_NODE then Inl TypeError
      else if \<not> validName name then Inl InvalidCharacterError
      else Inr (logCall (SetAttribute n name v)
                 (s\<lparr>nodes := (nodes s)(n := (nodes s n)
                      \<lparr>attributes := AList.update (attrName s n name) v (attributes (nodes s n))\<rparr>)\<rparr>)))"

definition removeAttribute :: "nat \<Rightarrow> string \<Rightarrow> dom \<Rightarrow> exn + dom" where
  "removeAttribute n name s =
     (if nodeType (nodes s n) \<noteq> ELEMENT_NODE then Inl TypeError
      else Inr (logCall (RemoveAttribute n name)
                 (s\<lparr>nodes := (nodes s)(n := (nodes s n)
                      \<lparr>attributes := AList.delete (attrName s n name) (attributes (nodes s n))\<rparr>)\<rparr>)))"

text \<open>
  What the host takes for the listener of \<open>addEventListener\<close> and
  \<open>removeEventListener\<close>: an object (a function is one), \<open>null\<close> or \<open>undefined\<close>.
  Given a boolean, a number or a string, either call throws a \<open>TypeError\<close>.
\<close>

fun isListener :: "val \<Rightarrow> bool" where
  "isListener (VBool b) = False"
| "isListener (VNum i) = False"
| "isListener VNaN = False"
| "isListener (VStr x) = False"
| "isListener _ = True"

definition addEventListener :: "nat \<Rightarrow> string \<Rightarrow> val \<Rightarrow> dom \<Rightarrow> exn + dom" where
  "addEventListener n ev h s =
     (if \<not> isListener h then Inl TypeError
      else Inr (logCall (AddEventListener n ev h)
             (if isNullish h \<or> (ev, h) \<in> set (listeners (nodes s n)) then s
              else s\<lparr>nodes := (nodes s)(n := (nodes s n)\<lparr>listeners := listeners (nodes s n) @ [(ev, h)]\<rparr>)\<rparr>)))"

definition removeEventListener :: "nat \<Rightarrow> string \<Rightarrow> val \<Rightarrow> dom \<Rightarrow> exn + dom" where
  "removeEventListener n ev h s =
     (if \<not> isListener h then Inl TypeError
      else Inr (logCall (RemoveEventListener n ev h)
             (s\<lparr>nodes := (nodes s)(n := (nodes s n)\<lparr>listeners := remove1 (ev, h) (listeners (nodes s n))\<rparr>)\<rparr>)))"

definition assignStyle :: "nat \<Rightarrow> string \<Rightarrow> val \<Rightarrow> dom \<Rightarrow> exn + dom" where
  "assignStyle n k v s =
     (if nodeType (nodes s n) \<noteq> ELEMENT_NODE then Inl TypeError
      else Inr (logCall (AssignStyle n k v)
                 (s\<lparr>nodes := (nodes s)(n := (nodes s n)\<lparr>styles := AList.update k v (styles (nodes s n))\<rparr>)\<rparr>)))"

text \<open>\<open>afterLayout(cb)\<close> (core/scheduler) hands \<open>cb\<close> to \<open>requestAnimationFrame\<close>.\<close>

definition afterLayout :: "frame \<Rightarrow> dom \<Rightarrow> dom" where
  "afterLayout cb s = s\<lparr>frames := frames s @ [cb]\<rparr>"

section \<open>Results of the reconciler's functions\<close>

text \<open>
  A function of the reconciler may throw, and one that calls components may not return:
  \<open>None\<close> is running out of fuel, \<open>Some (Inl x)\<close> the exception \<open>x\<close>, and
  \<open>Some (Inr (a, s))\<close> the result \<open>a\<close> with the document \<open>s\<close>.
\<close>

type_synonym 'a res = "(exn + 'a \<times> dom) option"

definition ret :: "'a \<Rightarrow> dom \<Rightarrow> 'a res" where
  "ret a s = Some (Inr (a, s))"

definition throw :: "exn \<Rightarrow> 'a res" where
  "throw x = Some (Inl x)"

definition bindR :: "'a res \<Rightarrow> ('a \<Rightarrow> dom \<Rightarrow> 'b res) \<Rightarrow> 'b res" where
  "bindR m f = (case m of None \<Rightarrow> None | Some (Inl x) \<Rightarrow> Some (Inl x) | Some (Inr (a, s)) \<Rightarrow> f a s)"

definition lift :: "exn + dom \<Rightarrow> unit res" where
  "lift r = (case r of Inl x \<Rightarrow> Some (Inl x) | Inr s \<Rightarrow> Some (Inr ((), s)))"

fun foldE :: "('a \<Rightarrow> dom \<Rightarrow> exn + dom) \<Rightarrow> 'a list \<Rightarrow> dom \<Rightarrow> exn + dom" where
  "foldE f [] s = Inr s"
| "foldE f (x # xs) s = (case f x s of Inl e \<Rightarrow> Inl e | Inr s' \<Rightarrow> foldE f xs s')"

text \<open>A method call on a node that may be \<open>undefined\<close>.\<close>

definition onNode :: "nat option \<Rightarrow> (nat \<Rightarrow> dom \<Rightarrow> exn + dom) \<Rightarrow> dom \<Rightarrow> exn + dom" where
  "onNode node f s = (case node of None \<Rightarrow> Inl TypeError | Some n \<Rightarrow> f n s)"

section \<open>Diffing (core/diff)\<close>

text \<open>
  The module \<open>./diff\<close> that \<open>core/render\<close> imports (source: the second module of
  \<open>src/cli/generate.ts\<close>).
\<close>

subsection \<open>updateDOMProps\<close>

text \<open>\<open>new Set([...Object.keys(oldProps), ...Object.keys(newProps)])\<close>\<close>

definition unionKeys :: "(string \<times> val) list \<Rightarrow> (string \<times> val) list \<Rightarrow> string list" where
  "unionKeys oldProps newProps = fold (\<lambda>k ks. Set_add ks k) (map fst oldProps @ map fst newProps) []"

definition assignStyles :: "nat option \<Rightarrow> (string \<times> val) list \<Rightarrow> dom \<Rightarrow> exn + dom" where
  "assignStyles node kvs s = foldE (\<lambda>(k, v). onNode node (\<lambda>n. assignStyle n k v)) kvs s"

text \<open>The body of the loop over the prop names.\<close>

definition updateProp ::
  "cenv \<Rightarrow> nat option \<Rightarrow> (string \<times> val) list \<Rightarrow> (string \<times> val) list \<Rightarrow> string \<Rightarrow> dom \<Rightarrow> exn + dom" where
  "updateProp C node oldProps newProps name s =
     (if name = ''children'' \<or> name = ''key'' \<or> name = ''ref'' then Inr s
      else
        (let oldValue = getProp oldProps name;
             newValue = getProp newProps name;
             eventName = toLowerCase (drop 2 name)
         in if isNullish newValue \<or> newValue = VBool False
            then (if startsWith name ''on''
                  then onNode node (\<lambda>n. removeEventListener n eventName oldValue) s
                  else onNode node (\<lambda>n. removeAttribute n name) s)
            else (case newValue of
                    VObj x \<Rightarrow>
                      if name = ''style'' then assignStyles node (properties C x) s
                      else onNode node (\<lambda>n. setAttribute n name (String' C newValue)) s
                  | VFun f \<Rightarrow>
                      if startsWith name ''on''
                      then onNode node
                             (\<lambda>n s. case (if truthy oldValue then removeEventListener n eventName oldValue s
                                           else Inr s) of
                                      Inl x \<Rightarrow> Inl x
                                    | Inr s1 \<Rightarrow> addEventListener n eventName newValue s1) s
                      else onNode node (\<lambda>n. setAttribute n name (String' C newValue)) s
                  | VBool b \<Rightarrow> onNode node (\<lambda>n. setAttribute n name []) s
                  | _ \<Rightarrow> onNode node (\<lambda>n. setAttribute n name (String' C newValue)) s)))"

definition updateDOMProps ::
  "cenv \<Rightarrow> nat option \<Rightarrow> (string \<times> val) list \<Rightarrow> (string \<times> val) list \<Rightarrow> dom \<Rightarrow> exn + dom" where
  "updateDOMProps C node oldProps newProps s =
     (case foldE (updateProp C node oldProps newProps) (unionKeys oldProps newProps) s of
        Inl x \<Rightarrow> Inl x
      | Inr s' \<Rightarrow>
          Inr (case getProp newProps ''ref'' of
                 VFun f \<Rightarrow> afterLayout (RefFrame f node) s'
               | _ \<Rightarrow> s'))"

subsection \<open>createDOMNode\<close>

text \<open>
  An assignment to \<open>element.rendered\<close> changes the element; so do the assignments made
  to its children. The functions return the element as they leave it.
\<close>

definition setRendered :: "element \<Rightarrow> element option \<Rightarrow> element" where
  "setRendered e r = Element (etype e) (props e) (children e) (key e) r"

definition setChildren :: "element \<Rightarrow> child list \<Rightarrow> element" where
  "setChildren e cs = Element (etype e) (props e) cs (key e) (rendered e)"

text \<open>
  The loop that creates and appends the children, in \<open>createDOMNode\<close> and in the
  only-appending case of \<open>updateChildren\<close> (where the parent node may be \<open>undefined\<close>);
  \<open>cr\<close> is \<open>createDOMNode\<close>.
\<close>

fun appendChildren ::
  "cenv \<Rightarrow> (element \<Rightarrow> element option \<Rightarrow> dom \<Rightarrow> (nat \<times> element) res)
     \<Rightarrow> nat option \<Rightarrow> child list \<Rightarrow> element option \<Rightarrow> dom \<Rightarrow> child list res" where
  "appendChildren C cr node [] pc s = ret [] s"
| "appendChildren C cr node (ChildPrim PNull # cs) pc s =
     bindR (appendChildren C cr node cs pc s) (\<lambda>cs'. ret (ChildPrim PNull # cs'))"
| "appendChildren C cr node (ChildPrim p # cs) pc s =
     (case createTextNode (primString C p) s of
        (t, s1) \<Rightarrow>
          bindR (lift (onNode node (\<lambda>n. appendChild n t) s1))
            (\<lambda>_ s2. bindR (appendChildren C cr node cs pc s2) (\<lambda>cs'. ret (ChildPrim p # cs'))))"
| "appendChildren C cr node (ChildElement e # cs) pc s =
     bindR (cr e pc s)
       (\<lambda>(k, e') s1.
          bindR (lift (onNode node (\<lambda>n. appendChild n k) s1))
            (\<lambda>_ s2. bindR (appendChildren C cr node cs pc s2) (\<lambda>cs'. ret (ChildElement e' # cs'))))"

primrec createDOMNode ::
  "nat \<Rightarrow> cenv \<Rightarrow> element \<Rightarrow> element option \<Rightarrow> dom \<Rightarrow> (nat \<times> element) res" where
  "createDOMNode 0 C element parentComponent s = None"
| "createDOMNode (Suc fuel) C element parentComponent s =
     (case etype element of
        Component c \<Rightarrow>
          (case comps C c (props element) of
             Inl x \<Rightarrow> throw x
           | Inr None \<Rightarrow> throw TypeError
           | Inr (Some r) \<Rightarrow>
               bindR (createDOMNode fuel C r (Some (setRendered element (Some r))) s)
                 (\<lambda>(node, r'). ret (node, setRendered element (Some r'))))
      | Tag t \<Rightarrow>
          (case createElement t (t = ''svg'') s of
             Inl x \<Rightarrow> throw x
           | Inr (node, s1) \<Rightarrow>
               bindR (lift (updateDOMProps C (Some node) [] (props element) s1))
                 (\<lambda>_ s2. bindR (appendChildren C (createDOMNode fuel C) (Some node) (children element) parentComponent s2)
                    (\<lambda>cs. ret (node, setChildren element cs)))))"

subsection \<open>updateChildren and diff\<close>

text \<open>
  A child that is not an object becomes
  \<open>{ type: '#text', props: {}, children: [], value: String(child) }\<close> (nothing reads
  \<open>value\<close>); \<open>null\<close> is an object and stays \<open>null\<close>.
\<close>

fun normalize :: "child \<Rightarrow> element option" where
  "normalize (ChildElement e) = Some e"
| "normalize (ChildPrim PNull) = None"
| "normalize (ChildPrim p) = Some (Element (Tag ''#text'') [] [] VUndefined None)"

definition keyOf :: "cenv \<Rightarrow> element \<Rightarrow> nat \<Rightarrow> string" where
  "keyOf C e i = (if \<not> isNullish (key e) then String' C (key e) else ''index:'' @ digits i)"









section \<open>Mounting and unmounting (core/render)\<close>

text \<open>Source: \<open>src/core/render.ts\<close>.\<close>

text \<open>A \<open>MountedComponent\<close>: \<open>{ element, node, cleanup, children }\<close>.\<close>

datatype mounted =
  Mounted (m_element: element) (m_node: nat) (m_cleanup: "nat list") (m_children: "mounted list")

text \<open>
  The body of the loop over \<open>Object.entries(element.props)\<close> in \<open>mount\<close>. A ref is
  called at once, with the node. (\<open>typeof null\<close> is \<open>'object'\<close>, and
  \<open>Object.assign\<close> takes nothing from \<open>null\<close>.)
\<close>

definition applyProp :: "cenv \<Rightarrow> nat \<Rightarrow> string \<times> val \<Rightarrow> dom \<Rightarrow> exn + dom" where
  "applyProp C node kv s =
     (case kv of
        (k, v) \<Rightarrow>
          (case v of
             VFun f \<Rightarrow>
               if k = ''ref'' then Inr (logCall (CallFunction f [ArgNode node]) s)
               else if startsWith k ''on''
               then addEventListener node (toLowerCase (drop 2 k)) v s
               else if k \<noteq> ''children'' \<and> k \<noteq> ''key''
               then setAttribute node k (String' C v) s
               else Inr s
           | VObj x \<Rightarrow>
               if k = ''style'' then assignStyles (Some node) (properties C x) s
               else if k \<noteq> ''children'' \<and> k \<noteq> ''key''
               then setAttribute node k (String' C v) s
               else Inr s
           | VNull \<Rightarrow> Inr s
           | VUndefined \<Rightarrow> Inr s
           | VBool b \<Rightarrow>
               if k \<noteq> ''children'' \<and> k \<noteq> ''key'' \<and> b then setAttribute node k [] s else Inr s
           | _ \<Rightarrow>
               if k \<noteq> ''children'' \<and> k \<noteq> ''key''
               then setAttribute node k (String' C v) s
               else Inr s))"

text \<open>The loop over the children in \<open>mount\<close>; \<open>mnt\<close> is \<open>mount\<close>.\<close>

fun mountChildren ::
  "cenv \<Rightarrow> (element \<Rightarrow> nat option \<Rightarrow> bool \<Rightarrow> dom \<Rightarrow> mounted res)
     \<Rightarrow> nat \<Rightarrow> bool \<Rightarrow> child list \<Rightarrow> dom \<Rightarrow> mounted list res" where
  "mountChildren C mnt node isNS [] s = ret [] s"
| "mountChildren C mnt node isNS (ChildPrim PNull # cs) s = mountChildren C mnt node isNS cs s"
| "mountChildren C mnt node isNS (ChildPrim p # cs) s =
     (case createTextNode (primString C p) s of
        (t, s1) \<Rightarrow> bindR (lift (appendChild node t s1)) (\<lambda>_. mountChildren C mnt node isNS cs))"
| "mountChildren C mnt node isNS (ChildElement e # cs) s =
     bindR (mnt e (Some node) isNS s)
       (\<lambda>m s1. bindR (mountChildren C mnt node isNS cs s1) (\<lambda>ms. ret (m # ms)))"

primrec mount :: "nat \<Rightarrow> cenv \<Rightarrow> element \<Rightarrow> nat option \<Rightarrow> bool \<Rightarrow> dom \<Rightarrow> mounted res" where
  "mount 0 C element container isSVG s = None"
| "mount (Suc fuel) C element container isSVG s =
     (case etype element of
        Component c \<Rightarrow>
          (case comps C c (props element) of
             Inl x \<Rightarrow> throw x
           | Inr None \<Rightarrow> throw TypeError
           | Inr (Some renderedElement) \<Rightarrow>
               bindR (mount fuel C renderedElement container isSVG s)
                 (\<lambda>m. ret (Mounted element (m_node m) (m_cleanup m) [m])))
      | Tag t \<Rightarrow>
          (case createElement t (isSVG \<or> t = ''svg'') s of
             Inl x \<Rightarrow> throw x
           | Inr (node, s1) \<Rightarrow>
               bindR (lift (foldE (applyProp C node) (props element) s1))
                 (\<lambda>_ s2. bindR (mountChildren C (mount fuel C) node (isSVG \<or> t = ''svg'') (children element) s2)
                    (\<lambda>ms s3. case container of
                                None \<Rightarrow> ret (Mounted element node [] ms) s3
                              | Some k \<Rightarrow> bindR (lift (appendChild k node s3))
                                            (\<lambda>_. ret (Mounted element node [] ms))))))"

text \<open>
  The function, if it is one, that the property \<open>name\<close> of an \<open>Element\<close> holds. An
  element has the properties \<open>type\<close>, \<open>props\<close>, \<open>children\<close>, \<open>key\<close> and
  \<open>rendered\<close> (core/types; \<open>h\<close> builds the first four): \<open>props\<close> is an object,
  \<open>children\<close> an array, \<open>rendered\<close> an element if set, and a property it does not have
  reads as \<open>undefined\<close>.
\<close>

definition elementFunction :: "element \<Rightarrow> string \<Rightarrow> nat option" where
  "elementFunction e name =
     (if name = ''type'' then (case etype e of Component c \<Rightarrow> Some c | Tag t \<Rightarrow> None)
      else if name = ''key'' then (case key e of VFun f \<Rightarrow> Some f | _ \<Rightarrow> None)
      else None)"

fun unmount :: "mounted \<Rightarrow> dom \<Rightarrow> exn + dom"
and unmountAll :: "mounted list \<Rightarrow> dom \<Rightarrow> exn + dom" where
  "unmount (Mounted element node cleanup children') s =
     (case unmountAll children' (fold (\<lambda>f. logCall (CallFunction f [])) cleanup s) of
        Inl x \<Rightarrow> Inl x
      | Inr s1 \<Rightarrow>
          (case (case parentNode (nodes s1 node) of
                   None \<Rightarrow> Inr s1
                 | Some p \<Rightarrow> removeChild p node s1) of
             Inl x \<Rightarrow> Inl x
           | Inr s2 \<Rightarrow>
               Inr (case elementFunction element ''ref'' of
                      Some f \<Rightarrow> logCall (CallFunction f [ArgNull]) s2
                    | None \<Rightarrow> s2)))"
| "unmountAll [] s = Inr s"
| "unmountAll (m # ms) s =
     (case unmount m s of Inl x \<Rightarrow> Inl x | Inr s' \<Rightarrow> unmountAll ms s')"

section \<open>Documents that an element tree matches\<close>




text \<open>The prop names that \<open>updateDOMProps\<close> acts on.\<close>

definition touched :: "(string \<times> val) list \<Rightarrow> (string \<times> val) list \<Rightarrow> string list" where
  "touched oldProps newProps =
     filter (\<lambda>name. name \<noteq> ''children'' \<and> name \<noteq> ''key'' \<and> name \<noteq> ''ref'') (unionKeys oldProps newProps)"

text \<open>
  Whether the host accepts what \<open>updateDOMProps\<close> does for the prop \<open>name\<close> on an
  element: an attribute that is set has a name the host accepts, and an old value that is
  handed to \<open>removeEventListener\<close> is one the host takes for a listener.
\<close>

definition propApplies :: "(string \<times> val) list \<Rightarrow> (string \<times> val) list \<Rightarrow> string \<Rightarrow> bool" where
  "propApplies oldProps newProps name =
     (let oldValue = getProp oldProps name;
          newValue = getProp newProps name
      in if isNullish newValue \<or> newValue = VBool False
         then (startsWith name ''on'' \<longrightarrow> isListener oldValue)
         else (case newValue of
                 VObj x \<Rightarrow> name = ''style'' \<or> validName name
               | VFun f \<Rightarrow>
                   if startsWith name ''on'' then (truthy oldValue \<longrightarrow> isListener oldValue)
                   else validName name
               | _ \<Rightarrow> validName name))"

text \<open>The keys under which \<open>updateChildren\<close> files a list of children, from index \<open>i\<close> on.\<close>

fun childKeys :: "cenv \<Rightarrow> nat \<Rightarrow> child list \<Rightarrow> string list" where
  "childKeys C i [] = []"
| "childKeys C i (c # cs) =
     (case normalize c of None \<Rightarrow> [] | Some e \<Rightarrow> keyOf C e i) # childKeys C (Suc i) cs"

text \<open>
  \<open>aligned C s old new n\<close>: the old and the new element have the same shape, and node
  \<open>n\<close> of the document \<open>s\<close> has that shape too. Both are tags of one name, or both are
  components (the same or not), the old one carries what it rendered (as
  \<open>createDOMNode\<close> and \<open>diff\<close> leave it), the new one returns an element, and these
  two outputs are aligned. For tags: the node is an element if there is any prop to act
  on, and the host accepts what is done for each such prop; the children are equally many,
  none is \<open>null\<close>, their keys are distinct and the same on both sides, position by
  position, and each pair is aligned at the node's child in that position.
\<close>

inductive aligned :: "cenv \<Rightarrow> dom \<Rightarrow> element \<Rightarrow> element \<Rightarrow> nat \<Rightarrow> bool"
  for C :: cenv and s :: dom where
  tags:
    "\<lbrakk>touched ops nps \<noteq> [] \<longrightarrow> nodeType (nodes s n) = ELEMENT_NODE;
      \<forall>name\<in>set (touched ops nps). propApplies ops nps name;
      length ocs = length ncs;
      length ocs \<le> length (childNodes (nodes s n));
      distinct (childKeys C 0 ocs);
      childKeys C 0 ncs = childKeys C 0 ocs;
      \<forall>j<length ocs. \<exists>oe ne. normalize (ocs ! j) = Some oe \<and> normalize (ncs ! j) = Some ne
           \<and> aligned C s oe ne (childNodes (nodes s n) ! j)\<rbrakk>
     \<Longrightarrow> aligned C s (Element (Tag t) ops ocs ok orr) (Element (Tag t) nps ncs nk nr) n"
| components:
    "\<lbrakk>comps C c nps = Inr (Some r'); aligned C s r r' n\<rbrakk>
     \<Longrightarrow> aligned C s (Element (Component a) ops ocs ok (Some r)) (Element (Component c) nps ncs nk nr) n"


section \<open>Scenarios\<close>

text \<open>The state of a page that has just loaded; the application's state is \<open>u\<close>.\<close>

definition world0 :: "'u \<Rightarrow> 'u world" where
  "world0 u = \<lparr>signals = Map.empty, nextSignal = 0, currentEffect = None,
     taskQueue = (\<lambda>_. []), nextTaskId = 1, isScheduled = False, currentFrameDeadline = 0,
     now = 0, microtasks = 0, animationFrames = 0, console = [], user = u\<rparr>"

text \<open>
  An application whose effects all have the body
  \<open>() => { first(); last(); runs++ }\<close> over the signals 0 and 1, whose user tasks are
  \<open>() => { runs++ }\<close>, except that task 1 throws after that, and whose updater
  functions are all \<open>prev => g\<close> for one function \<open>g\<close> (function 7).
\<close>

definition countingEnv :: "nat env" where
  "countingEnv =
     \<lparr>fns = (\<lambda>e w. let (a, w1) = read 0 w; (b, w2) = read 1 w1
                   in (None, w2\<lparr>user := user w2 + 1\<rparr>)),
      callbacks = (\<lambda>c w. (if c = 1 then Some (Exn ''boom'') else None, w\<lparr>user := user w + 1\<rparr>)),
      call = (\<lambda>f v. VFun 7)\<rparr>"

text \<open>
  \<open>const [first, setFirst] = createSignal(0); const [last, setLast] = createSignal(0);
  const dispose = createEffect(fn)\<close>
\<close>

definition twoSignalsOneEffect :: "(exn + fnref) \<times> nat world" where
  "twoSignalsOneEffect =
     (let (a, w1) = createSignal (VNum 0) (world0 0);
          (b, w2) = createSignal (VNum 0) w1
      in createEffect countingEnv 0 w2)"

text \<open>... followed, in the same turn, by \<open>setFirst(1); setLast(1)\<close>.\<close>

definition twoWrites :: "nat world" where
  "twoWrites = write' countingEnv 1 (VNum 1) (write' countingEnv 0 (VNum 1) (snd twoSignalsOneEffect))"

text \<open>... or followed by \<open>dispose()\<close>, and then by \<open>setFirst(1)\<close>.\<close>

definition disposed :: "nat world" where
  "disposed =
     (case twoSignalsOneEffect of
        (Inr dispose, w) \<Rightarrow> snd (invoke countingEnv dispose w)
      | (Inl x, w) \<Rightarrow> w)"

definition disposedThenWrite :: "nat world" where
  "disposedThenWrite = write' countingEnv 0 (VNum 1) disposed"

text \<open>
  An effect with a branch, \<open>() => { seen = cond() ? [0, a()] : [0, b()] }\<close> over the
  signals 0 (\<open>cond\<close>), 1 (\<open>a\<close>) and 2 (\<open>b\<close>); the application's state is the list of the
  signals read by the latest run.
\<close>

definition branchEnv :: "nat list env" where
  "branchEnv =
     \<lparr>fns = (\<lambda>e w. let (c, w1) = read 0 w
                   in if c = VBool True
                      then (let (x, w2) = read 1 w1 in (None, w2\<lparr>user := [0, 1]\<rparr>))
                      else (let (x, w2) = read 2 w1 in (None, w2\<lparr>user := [0, 2]\<rparr>))),
      callbacks = (\<lambda>c w. (None, w)),
      call = (\<lambda>f v. v)\<rparr>"

text \<open>
  \<open>cond\<close> starts true, the effect is created, and \<open>setCond(false)\<close> is called in the
  same turn.
\<close>

definition branchFlipped :: "nat list world" where
  "branchFlipped =
     (let (c, w1) = createSignal (VBool True) (world0 []);
          (a, w2) = createSignal (VNum 0) w1;
          (b, w3) = createSignal (VNum 0) w2;
          (d, w4) = createEffect branchEnv 0 w3
      in write' branchEnv c (VBool False) w4)"

text \<open>
  An application whose user task \<open>c\<close> is
  \<open>() => { runs++; if (c < 3) scheduleTask(task c+1, Priority.LOW) }\<close>, with task 0
  scheduled at NORMAL priority.
\<close>

definition chainEnv :: "nat env" where
  "chainEnv =
     \<lparr>fns = (\<lambda>e w. (None, w)),
      callbacks = (\<lambda>c w. (None, if c < 3
                                then snd (scheduleTask (UserTask (c + 1)) LOW (w\<lparr>user := user w + 1\<rparr>))
                                else w\<lparr>user := user w + 1\<rparr>)),
      call = (\<lambda>f v. v)\<rparr>"

definition chainStart :: "nat world" where
  "chainStart = scheduleAll [(UserTask 0, NORMAL)] (world0 0)"

text \<open>One signal holding 0, for the writer alone.\<close>

definition oneSignal :: "nat world" where
  "oneSignal = snd (createSignal (VNum 0) (world0 0))"

text \<open>Five user tasks scheduled in mixed order.\<close>

definition mixedOrder :: "(callback \<times> Priority) list" where
  "mixedOrder = [(UserTask 0, LOW), (UserTask 1, NORMAL), (UserTask 2, HIGH),
                 (UserTask 3, NORMAL), (UserTask 4, HIGH)]"


section \<open>Scenarios for the reconciler\<close>

text \<open>
  Two components: component 1 renders \<open><div/>\<close>, component 2 renders
  \<open><div id="x"/>\<close>; any other number stands for a component that returns \<open>null\<close>.
  No object has properties, and no number beyond \<open>2\<^sup>5\<^sup>3\<close> occurs.
\<close>

definition divE :: "(string \<times> val) list \<Rightarrow> child list \<Rightarrow> element" where
  "divE ps cs = Element (Tag ''div'') ps cs (getProp ps ''key'') None"

definition li :: "string \<Rightarrow> (string \<times> val) list \<Rightarrow> child list \<Rightarrow> element" where
  "li k ps cs = Element (Tag ''li'') ((''key'', VStr k) # ps) cs (VStr k) None"

definition twoComponents :: cenv where
  "twoComponents =
     \<lparr>comps = (\<lambda>c ps. if c = 1 then Inr (Some (divE [] []))
                      else if c = 2 then Inr (Some (divE [(''id'', VStr ''x'')] []))
                      else Inr None),
      properties = (\<lambda>x. []),
      fnText = (\<lambda>f. ''function () { [native code] }''),
      bigText = (\<lambda>i. ''Infinity'')\<rparr>"

text \<open>A document that holds one element, the container (node 0).\<close>

definition emptyPage :: dom where
  "emptyPage =
     \<lparr>nodes = (\<lambda>n. newNode ELEMENT_NODE ''div'' False ''''), nextNode = 1, frames = [], calls = []\<rparr>"

text \<open>What a call left in the log and in the animation-frame queue, and whether it made a node.\<close>

definition since :: "dom \<Rightarrow> dom \<Rightarrow> domcall list \<times> frame list \<times> nat" where
  "since s s' = (drop (length (calls s)) (calls s'), drop (length (frames s)) (frames s'),
                 nextNode s' - nextNode s)"

text \<open>What a function returned and what it left, starting from the document \<open>s\<close>.\<close>

definition outcome ::
  "dom \<Rightarrow> 'a res \<Rightarrow> (exn + 'a \<times> domcall list \<times> frame list \<times> nat) option" where
  "outcome s r = map_option (map_sum id (\<lambda>(a, s'). (a, since s s'))) r"

text \<open>\<open><div ref={f}/>\<close> for the function 5, mounted into the container and unmounted.\<close>

definition divWithRef :: element where
  "divWithRef = divE [(''ref'', VFun 5)] []"

definition refMounted :: "mounted res" where
  "refMounted = mount 2 twoComponents divWithRef (Some 0) False emptyPage"

definition refUnmounted :: "(exn + dom) option" where
  "refUnmounted =
     (case refMounted of
        Some (Inr (m, s)) \<Rightarrow> Some (unmount m s)
      | Some (Inl x) \<Rightarrow> Some (Inl x)
      | None \<Rightarrow> None)"







definition listCAB :: element where
  "listCAB = Element (Tag ''ul'') []
     [ChildElement (li ''c'' [] []), ChildElement (li ''a'' [] []), ChildElement (li ''b'' [] [])]
     VUndefined None"




















section \<open>The drain, for callbacks that leave the scheduler alone\<close>

lemma thrown_append: "thrown (a @ b) = thrown a @ thrown b"
  by (induction a rule: thrown.induct) simp_all

lemma thrown_Cons: "thrown ((i, r) # out) = thrown [(i, r)] @ thrown out"
  by (cases r) simp_all

lemma console_report: "console (report r w) = console w @ thrown [(i, r)]"
  by (cases r) (simp_all add: report_def)

lemma report_fields:
  "taskQueue (report r w) = taskQueue w"
  by (cases r) (simp_all add: report_def)

lemma outcomeOf_ids: "list_all2 (outcomeOf E) ts out \<Longrightarrow> map fst out = map task_id ts"
  by (induction rule: list_all2_induct) (simp_all add: outcomeOf_def)

lemma drainQueue_quiet:
  assumes "taskQueue w p = q" and "\<forall>t\<in>set q. quietCb E (callback t)"
  shows "\<exists>k out w'. k \<le> length q
           \<and> drainQueue E p acc w = Some (k < length q, acc @ out, w')
           \<and> list_all2 (outcomeOf E) (take k q) out
           \<and> taskQueue w' = (taskQueue w)(p := drop k q)
           \<and> console w' = console w @ thrown out
           \<and> (k < length q \<longrightarrow> p \<noteq> HIGH \<and> isScheduled w' \<and> currentFrameDeadline w' \<le> now w')"
  using assms
proof (induction q arbitrary: w acc)
  case Nil
  have "(taskQueue w)(p := []) = taskQueue w" using Nil.prems(1) by auto
  with Nil show ?case
    by (subst drainQueue.simps) simp
next
  case (Cons t rest)
  have upd: "(taskQueue w)(p := t # rest) = taskQueue w" using Cons.prems(1) by auto
  show ?case
  proof (cases "p \<noteq> HIGH \<and> now w \<ge> currentFrameDeadline w")
    case True
    have "drainQueue E p acc w = Some (True, acc, w\<lparr>isScheduled := True, animationFrames := animationFrames w + 1\<rparr>)"
      using Cons.prems(1) True by (subst drainQueue.simps) simp
    then show ?thesis using True upd
      by (intro exI[of _ 0] exI[of _ "[]"] exI[of _ "w\<lparr>isScheduled := True, animationFrames := animationFrames w + 1\<rparr>"]) simp
  next
    case False
    let ?w0 = "w\<lparr>taskQueue := (taskQueue w)(p := rest)\<rparr>"
    obtain r w1 where rc: "runCallback E (callback t) ?w0 = (r, w1)"
      by (cases "runCallback E (callback t) ?w0")
    have qt: "quietCb E (callback t)" using Cons.prems(2) by simp
    have "taskQueue (snd (runCallback E (callback t) ?w0)) = taskQueue ?w0"
      and "console (snd (runCallback E (callback t) ?w0)) = console ?w0"
      using qt unfolding quietCb_def by blast+
    then have tq1: "taskQueue w1 = (taskQueue w)(p := rest)" and c1: "console w1 = console w"
      by (simp_all add: rc)
    have step: "drainQueue E p acc w = drainQueue E p (acc @ [(task_id t, r)]) (report r w1)"
      using Cons.prems(1) False rc by (subst drainQueue.simps) auto
    have "taskQueue (report r w1) p = rest" by (simp add: report_fields tq1)
    moreover have "\<forall>t\<in>set rest. quietCb E (callback t)" using Cons.prems(2) by simp
    ultimately obtain k out w' where ih:
      "k \<le> length rest"
      "drainQueue E p (acc @ [(task_id t, r)]) (report r w1) = Some (k < length rest, (acc @ [(task_id t, r)]) @ out, w')"
      "list_all2 (outcomeOf E) (take k rest) out"
      "taskQueue w' = (taskQueue (report r w1))(p := drop k rest)"
      "console w' = console (report r w1) @ thrown out"
      "k < length rest \<longrightarrow> p \<noteq> HIGH \<and> isScheduled w' \<and> currentFrameDeadline w' \<le> now w'"
      using Cons.IH[of "report r w1" "acc @ [(task_id t, r)]"] by blast
    have o: "outcomeOf E t (task_id t, r)"
      unfolding outcomeOf_def using rc by (metis fst_conv snd_conv)
    show ?thesis
      apply (rule exI[of _ "Suc k"], rule exI[of _ "(task_id t, r) # out"], rule exI[of _ w'])
      using ih step thrown_Cons[of "task_id t" r out] o
      by (simp add: report_fields tq1 c1 console_report[of r w1 "task_id t"] del: thrown.simps)
  qed
qed


lemma drainFrom_quiet:
  assumes "distinct ps" and "\<forall>p\<in>set ps. \<forall>t\<in>set (taskQueue w p). quietCb E (callback t)"
  shows "\<exists>k out w'. k \<le> length (concat (map (taskQueue w) ps))
           \<and> drainFrom E ps acc w = Some (acc @ out, w')
           \<and> list_all2 (outcomeOf E) (take k (concat (map (taskQueue w) ps))) out
           \<and> concat (map (taskQueue w') ps) = drop k (concat (map (taskQueue w) ps))
           \<and> (\<forall>p. p \<notin> set ps \<longrightarrow> taskQueue w' p = taskQueue w p)
           \<and> console w' = console w @ thrown out
           \<and> (HIGH \<in> set ps \<longrightarrow> hd ps = HIGH \<longrightarrow> length (taskQueue w HIGH) \<le> k)
           \<and> (k < length (concat (map (taskQueue w) ps))
                 \<longrightarrow> isScheduled w' \<and> currentFrameDeadline w' \<le> now w')"
  using assms
proof (induction ps arbitrary: w acc)
  case Nil
  then show ?case by simp
next
  case (Cons p ps)
  let ?q = "taskQueue w p"
  let ?rest = "concat (map (taskQueue w) ps)"
  have "\<forall>t\<in>set ?q. quietCb E (callback t)" using Cons.prems(2) by simp
  then obtain k out w1 where d:
      "k \<le> length ?q"
      "drainQueue E p acc w = Some (k < length ?q, acc @ out, w1)"
      "list_all2 (outcomeOf E) (take k ?q) out"
      "taskQueue w1 = (taskQueue w)(p := drop k ?q)"
      "console w1 = console w @ thrown out"
      "k < length ?q \<longrightarrow> p \<noteq> HIGH \<and> isScheduled w1 \<and> currentFrameDeadline w1 \<le> now w1"
    using drainQueue_quiet[of w p ?q E acc] by blast
  have pn: "p \<notin> set ps" using Cons.prems(1) by simp
  have "map (taskQueue w1) ps = map (taskQueue w) ps"
    using pn d(4) by (auto simp: map_eq_conv)
  then have same: "concat (map (taskQueue w1) ps) = concat (map (taskQueue w) ps)"
    by (rule arg_cong)
  have tp: "taskQueue w1 p = drop k ?q" using d(4) by simp
  have other: "\<forall>p'. p' \<noteq> p \<longrightarrow> taskQueue w1 p' = taskQueue w p'" using d(4) by simp
  note d' = d(1,2,3,5,6) tp other same
  show ?case
  proof (cases "k < length ?q")
    case True
    show ?thesis
      apply (rule exI[of _ k], rule exI[of _ out], rule exI[of _ w1])
      using True d' by auto
  next
    case False
    then have keq: "k = length ?q" using d(1) by simp
    have q2: "\<forall>p'\<in>set ps. \<forall>t\<in>set (taskQueue w1 p'). quietCb E (callback t)"
      using Cons.prems(2) pn d(4) by auto
    have dps: "distinct ps" using Cons.prems(1) by simp
    obtain k2 out2 w2 where r:
      "k2 \<le> length (concat (map (taskQueue w1) ps))"
      "drainFrom E ps (acc @ out) w1 = Some ((acc @ out) @ out2, w2)"
      "list_all2 (outcomeOf E) (take k2 (concat (map (taskQueue w1) ps))) out2"
      "concat (map (taskQueue w2) ps) = drop k2 (concat (map (taskQueue w1) ps))"
      "\<forall>p'. p' \<notin> set ps \<longrightarrow> taskQueue w2 p' = taskQueue w1 p'"
      "console w2 = console w1 @ thrown out2"
      "k2 < length (concat (map (taskQueue w1) ps))
                 \<longrightarrow> isScheduled w2 \<and> currentFrameDeadline w2 \<le> now w2"
      using Cons.IH[OF dps q2, of "acc @ out"] by blast
    show ?thesis
      apply (rule exI[of _ "length ?q + k2"], rule exI[of _ "out @ out2"], rule exI[of _ w2])
      using False keq d' r pn by (auto simp: thrown_append intro: list_all2_appendI)
  qed
qed


lemma processTaskQueue_quiet:
  assumes "\<forall>t\<in>set (pending w). quietCb E (callback t)"
  shows "\<exists>k out w'. k \<le> length (pending w)
           \<and> processTaskQueue E w = Some (out, w')
           \<and> list_all2 (outcomeOf E) (take k (pending w)) out
           \<and> pending w' = drop k (pending w)
           \<and> console w' = console w @ thrown out
           \<and> length (taskQueue w HIGH) \<le> k
           \<and> (k = length (pending w) \<or> isScheduled w' \<and> currentFrameDeadline w' \<le> now w')"
proof -
  let ?w = "w\<lparr>isScheduled := False\<rparr>"
  have d: "distinct [HIGH, NORMAL, LOW]" by simp
  have q: "\<forall>p\<in>set [HIGH, NORMAL, LOW]. \<forall>t\<in>set (taskQueue ?w p). quietCb E (callback t)"
    using assms by (simp add: pending_def)
  have c: "concat (map (taskQueue ?w) [HIGH, NORMAL, LOW]) = pending w"
    by (simp add: pending_def)
  obtain k out w' where r:
    "k \<le> length (pending w)"
    "drainFrom E [HIGH, NORMAL, LOW] [] ?w = Some ([] @ out, w')"
    "list_all2 (outcomeOf E) (take k (pending w)) out"
    "concat (map (taskQueue w') [HIGH, NORMAL, LOW]) = drop k (pending w)"
    "console w' = console ?w @ thrown out"
    "HIGH \<in> set [HIGH, NORMAL, LOW] \<longrightarrow> hd [HIGH, NORMAL, LOW] = HIGH \<longrightarrow> length (taskQueue ?w HIGH) \<le> k"
    "k < length (pending w) \<longrightarrow> isScheduled w' \<and> currentFrameDeadline w' \<le> now w'"
    using drainFrom_quiet[OF d q, of "[]"] unfolding c by blast
  have p': "pending w' = drop k (pending w)" using r(4) by (simp add: pending_def)
  show ?thesis
    apply (rule exI[of _ k], rule exI[of _ out], rule exI[of _ w'])
    using r(1,2,3,5,6,7) p' by (auto simp: processTaskQueue_def)
qed

lemma scheduleTask_fields:
  "taskQueue (snd (scheduleTask c q w)) p =
     (if p = q then taskQueue w p @ [\<lparr>task_id = nextTaskId w, callback = c, priority = q\<rparr>]
      else taskQueue w p)"
  "nextTaskId (snd (scheduleTask c q w)) = Suc (nextTaskId w)"
  by (simp_all add: scheduleTask_def Let_def)

lemma scheduleAll_queue:
  "taskQueue (scheduleAll xs w) p = taskQueue w p @ scheduled p (nextTaskId w) xs"
proof (induction xs arbitrary: w)
  case Nil
  then show ?case by (simp add: scheduleAll_def scheduled_def)
next
  case (Cons x xs)
  obtain c q where x: "x = (c, q)" by (cases x)
  have "scheduleAll (x # xs) w = scheduleAll xs (snd (scheduleTask c q w))"
    by (simp add: scheduleAll_def x)
  then show ?case
    using Cons.IH[of "snd (scheduleTask c q w)"]
    by (simp add: scheduleTask_fields x scheduled_def)
qed



section \<open>The drain, for callbacks that take a known time\<close>






section \<open>The drain, for callbacks that schedule and cancel\<close>

lemma below_append: "below n (xs @ ys) = below n xs @ below n ys"
  by (simp add: below_def)

lemma below_new: "\<forall>t\<in>set new. n \<le> task_id t \<Longrightarrow> below n (map task_id new) = []"
  by (induction new) (auto simp: below_def)

lemma below_subseq: "subseq xs ys \<Longrightarrow> subseq (below n (map task_id xs)) (below n (map task_id ys))"
  unfolding below_def by (intro subseq_filter subseq_map)

text \<open>What a disciplined callback leaves of the tasks that were queued before \<open>n\<close>.\<close>

lemma disciplined_step:
  assumes "disciplinedCb E c" and "n \<le> nextTaskId w" and "runCallback E c w = (r, w1)"
  shows "n \<le> nextTaskId w1"
    and "subseq (below n (map task_id (taskQueue w1 p))) (below n (map task_id (taskQueue w p)))"
    and "\<exists>ks. console w1 = console w @ ks"
proof -
  have w1: "w1 = snd (runCallback E c w)" using assms(3) by simp
  have d: "nextTaskId w \<le> nextTaskId w1"
          "\<exists>kept new. taskQueue w1 p = kept @ new \<and> subseq kept (taskQueue w p)
               \<and> (\<forall>t\<in>set new. nextTaskId w \<le> task_id t)"
          "\<exists>ks. console w1 = console w @ ks"
    using assms(1) unfolding disciplinedCb_def schedulerStep_def w1 by blast+
  show "n \<le> nextTaskId w1" using d(1) assms(2) by simp
  show "\<exists>ks. console w1 = console w @ ks" by (rule d(3))
  obtain kept new where k: "taskQueue w1 p = kept @ new" "subseq kept (taskQueue w p)"
      "\<forall>t\<in>set new. nextTaskId w \<le> task_id t"
    using d(2) by blast
  have "\<forall>t\<in>set new. n \<le> task_id t" using k(3) assms(2) by auto
  then have "below n (map task_id (taskQueue w1 p)) = below n (map task_id kept)"
    using k(1) by (simp add: below_append below_new)
  then show "subseq (below n (map task_id (taskQueue w1 p))) (below n (map task_id (taskQueue w p)))"
    using below_subseq[OF k(2)] by simp
qed

text \<open>
  What a drain of one queue that returns has done, whatever the callbacks scheduled or
  cancelled on the way: of the tasks queued before \<open>n\<close>, those executed, in order,
  followed by those still in the queue, were in the queue in that order; the other queues
  lost tasks at most; at a regular end the queue is empty; every exception thrown is on
  the console.
\<close>

lemma drainQueue_partial:
  assumes "drainQueue E p acc w = Some y"
  shows "drained n E p acc w y"
proof (rule drainQueue.raw_induct[where P = "drained n", OF _ assms])
  fix f :: "'a env \<Rightarrow> Priority \<Rightarrow> (nat \<times> exn option) list \<Rightarrow> 'a world
              \<Rightarrow> (bool \<times> (nat \<times> exn option) list \<times> 'a world) option"
  fix E p acc w y
  assume IH: "\<And>E p acc w y. f E p acc w = Some y \<Longrightarrow> drained n E p acc w y"
  assume body: "(case taskQueue w p of [] \<Rightarrow> Some (False, acc, w)
      | task # rest \<Rightarrow>
          if p \<noteq> HIGH \<and> currentFrameDeadline w \<le> now w
          then Some (True, acc, w\<lparr>isScheduled := True, animationFrames := animationFrames w + 1\<rparr>)
          else case runCallback E (callback task) (w\<lparr>taskQueue := (taskQueue w)(p := rest)\<rparr>) of
               (r, w') \<Rightarrow> f E p (acc @ [(task_id task, r)]) (report r w')) = Some y"
  show "drained n E p acc w y"
    unfolding drained_def
  proof (intro impI)
    assume disc: "\<forall>c. disciplinedCb E c" and n: "n \<le> nextTaskId w"
    let ?B = "\<lambda>q. below n (map task_id q)"
    let ?goal = "\<exists>mid ks. fst (snd y) = acc @ mid
            \<and> n \<le> nextTaskId (snd (snd y))
            \<and> (\<forall>q. subseq (?B (taskQueue (snd (snd y)) q)) (?B (taskQueue w q)))
            \<and> subseq (below n (map fst mid) @ ?B (taskQueue (snd (snd y)) p)) (?B (taskQueue w p))
            \<and> (\<not> fst y \<longrightarrow> taskQueue (snd (snd y)) p = [])
            \<and> (fst y \<longrightarrow> isScheduled (snd (snd y))
                           \<and> currentFrameDeadline (snd (snd y)) \<le> now (snd (snd y)))
            \<and> console (snd (snd y)) = console w @ ks
            \<and> subseq (thrown mid) ks"
    show ?goal
    proof (cases "taskQueue w p")
      case Nil
      then have "y = (False, acc, w)" using body by simp
      then show ?thesis using n Nil
        by (intro exI[of _ "[]"]) (simp add: below_def)
    next
      case (Cons task rest)
      show ?thesis
      proof (cases "p \<noteq> HIGH \<and> currentFrameDeadline w \<le> now w")
        case True
        then have "y = (True, acc, w\<lparr>isScheduled := True, animationFrames := animationFrames w + 1\<rparr>)"
          using body Cons by simp
        then show ?thesis using n True
          by (intro exI[of _ "[]"]) (simp add: below_def)
      next
        case False
        let ?w0 = "w\<lparr>taskQueue := (taskQueue w)(p := rest)\<rparr>"
        obtain r w1 where rc: "runCallback E (callback task) ?w0 = (r, w1)"
          by (cases "runCallback E (callback task) ?w0")
        have rec: "f E p (acc @ [(task_id task, r)]) (report r w1) = Some y"
          using body Cons False rc by auto
        have dc: "disciplinedCb E (callback task)" using disc by simp
        have n0: "n \<le> nextTaskId ?w0" using n by simp
        note st = disciplined_step[OF dc n0 rc]
        obtain ks1 where ks1: "console w1 = console w @ ks1" using st(3) by auto
        have rq: "\<And>q. taskQueue (report r w1) q = taskQueue w1 q"
          and rn: "nextTaskId (report r w1) = nextTaskId w1"
          by (cases r; simp add: report_def)+
        have rcon: "console (report r w1) = console w @ ks1 @ thrown [(task_id task, r)]"
          using ks1 by (cases r) (simp_all add: report_def)
        have n1: "n \<le> nextTaskId (report r w1)" using st(1) rn by simp
        obtain mid ks where ih:
            "fst (snd y) = (acc @ [(task_id task, r)]) @ mid"
            "n \<le> nextTaskId (snd (snd y))"
            "\<forall>q. subseq (?B (taskQueue (snd (snd y)) q)) (?B (taskQueue (report r w1) q))"
            "subseq (below n (map fst mid) @ ?B (taskQueue (snd (snd y)) p)) (?B (taskQueue (report r w1) p))"
            "\<not> fst y \<longrightarrow> taskQueue (snd (snd y)) p = []"
            "fst y \<longrightarrow> isScheduled (snd (snd y)) \<and> currentFrameDeadline (snd (snd y)) \<le> now (snd (snd y))"
            "console (snd (snd y)) = console (report r w1) @ ks"
            "subseq (thrown mid) ks"
          using IH[OF rec] disc n1 unfolding drained_def by blast
        have q0: "\<And>q. subseq (?B (taskQueue ?w0 q)) (?B (taskQueue w q))"
        proof -
          fix q
          show "subseq (?B (taskQueue ?w0 q)) (?B (taskQueue w q))"
          proof (cases "q = p")
            case True
            have "subseq rest (task # rest)" by (rule list_emb_Cons) simp
            then show ?thesis using True Cons below_subseq[of rest "task # rest" n] by simp
          next
            case False
            then show ?thesis by simp
          qed
        qed
        have all: "\<forall>q. subseq (?B (taskQueue (snd (snd y)) q)) (?B (taskQueue w q))"
        proof
          fix q
          have "subseq (?B (taskQueue (snd (snd y)) q)) (?B (taskQueue w1 q))"
            using ih(3) rq by simp
          also have "subseq \<dots> (?B (taskQueue ?w0 q))" by (rule st(2))
          also have "subseq \<dots> (?B (taskQueue w q))" by (rule q0)
          finally show "subseq (?B (taskQueue (snd (snd y)) q)) (?B (taskQueue w q))" .
        qed
        have "subseq (below n (map fst mid) @ ?B (taskQueue (snd (snd y)) p)) (?B (taskQueue w1 p))"
          using ih(4) rq by simp
        also have "subseq \<dots> (?B rest)" using st(2)[of p] by simp
        finally have "subseq (below n [task_id task] @ below n (map fst mid) @ ?B (taskQueue (snd (snd y)) p))
                             (below n [task_id task] @ ?B rest)"
          by (simp only: subseq_append')
        moreover have "below n (map fst ((task_id task, r) # mid))
                         = below n [task_id task] @ below n (map fst mid)"
          by (simp add: below_def)
        moreover have "?B (taskQueue w p) = below n [task_id task] @ ?B rest"
          using Cons by (simp add: below_def)
        ultimately have own: "subseq (below n (map fst ((task_id task, r) # mid)) @ ?B (taskQueue (snd (snd y)) p))
                               (?B (taskQueue w p))"
          by (simp only: append_assoc)
        have con: "console (snd (snd y)) = console w @ (ks1 @ thrown [(task_id task, r)] @ ks)"
          using ih(7) rcon by simp
        have "subseq (thrown [(task_id task, r)] @ thrown mid) (thrown [(task_id task, r)] @ ks)"
          using ih(8) by (simp only: subseq_append')
        then have "subseq (thrown ((task_id task, r) # mid)) (ks1 @ thrown [(task_id task, r)] @ ks)"
          using thrown_append[of "[(task_id task, r)]" mid]
          by (metis append_Cons append_Nil list_emb_append2)
        then show ?thesis
          using ih(1,2,5,6) all own con
          by (intro exI[of _ "(task_id task, r) # mid"] exI[of _ "ks1 @ thrown [(task_id task, r)] @ ks"]) simp
      qed
    qed
  qed
qed

lemma concat_subseq:
  "\<forall>q\<in>set ps. subseq (f q) (g q) \<Longrightarrow> subseq (concat (map f ps)) (concat (map g ps))"
  by (induction ps) (auto intro: list_emb_append_mono)

lemma drainFrom_partial:
  assumes "drainFrom E ps acc w = Some (acc', w')"
      and "\<forall>c. disciplinedCb E c" and "n \<le> nextTaskId w"
  shows "\<exists>mid ks. acc' = acc @ mid
           \<and> n \<le> nextTaskId w'
           \<and> (\<forall>q. subseq (below n (map task_id (taskQueue w' q))) (below n (map task_id (taskQueue w q))))
           \<and> subseq (below n (map fst mid) @ concat (map (\<lambda>q. below n (map task_id (taskQueue w' q))) ps))
                     (concat (map (\<lambda>q. below n (map task_id (taskQueue w q))) ps))
           \<and> (concat (map (\<lambda>q. below n (map task_id (taskQueue w' q))) ps) = []
                \<or> isScheduled w' \<and> currentFrameDeadline w' \<le> now w')
           \<and> console w' = console w @ ks
           \<and> subseq (thrown mid) ks"
  using assms
proof (induction ps arbitrary: acc w)
  case Nil
  then show ?case by (intro exI[of _ "[]"]) (simp add: below_def)
next
  case (Cons p ps)
  let ?B = "\<lambda>w q. below n (map task_id (taskQueue w q))"
  obtain stop acc1 w1 where dq: "drainQueue E p acc w = Some (stop, acc1, w1)"
    using Cons.prems(1) by (auto split: option.splits)
  obtain mid1 ks1 where a:
      "acc1 = acc @ mid1" "n \<le> nextTaskId w1"
      "\<forall>q. subseq (?B w1 q) (?B w q)"
      "subseq (below n (map fst mid1) @ ?B w1 p) (?B w p)"
      "\<not> stop \<longrightarrow> taskQueue w1 p = []"
      "stop \<longrightarrow> isScheduled w1 \<and> currentFrameDeadline w1 \<le> now w1"
      "console w1 = console w @ ks1" "subseq (thrown mid1) ks1"
    using drainQueue_partial[OF dq, of n] Cons.prems(2,3) unfolding drained_def by auto
  have rest1: "subseq (concat (map (?B w1) ps)) (concat (map (?B w) ps))"
    using a(3) by (intro concat_subseq) simp
  show ?case
  proof (cases stop)
    case True
    then have res: "acc' = acc1" "w' = w1" using Cons.prems(1) dq by simp_all
    have "subseq ((below n (map fst mid1) @ ?B w1 p) @ concat (map (?B w1) ps))
                 (?B w p @ concat (map (?B w) ps))"
      using a(4) rest1 by (rule list_emb_append_mono)
    then show ?thesis
      using a(1,2,3,6,7,8) True unfolding res
      by (intro exI[of _ mid1] exI[of _ ks1]) simp
  next
    case False
    then have rec: "drainFrom E ps acc1 w1 = Some (acc', w')" using Cons.prems(1) dq by simp
    have empty: "?B w1 p = []" using a(5) False by (simp add: below_def)
    obtain mid2 ks2 where b:
        "acc' = acc1 @ mid2" "n \<le> nextTaskId w'"
        "\<forall>q. subseq (?B w' q) (?B w1 q)"
        "subseq (below n (map fst mid2) @ concat (map (?B w') ps)) (concat (map (?B w1) ps))"
        "concat (map (?B w') ps) = [] \<or> isScheduled w' \<and> currentFrameDeadline w' \<le> now w'"
        "console w' = console w1 @ ks2" "subseq (thrown mid2) ks2"
      using Cons.IH[OF rec Cons.prems(2) a(2)] by blast
    have e': "?B w' p = []" using b(3)[rule_format, of p] empty by simp
    have all: "\<forall>q. subseq (?B w' q) (?B w q)"
      using a(3) b(3) subseq_order.trans by blast
    have "subseq (below n (map fst mid2) @ concat (map (?B w') ps)) (concat (map (?B w) ps))"
      using b(4) rest1 by (rule subseq_order.trans)
    moreover have "subseq (below n (map fst mid1)) (?B w p)" using a(4) empty by simp
    ultimately have "subseq (below n (map fst mid1) @ below n (map fst mid2) @ concat (map (?B w') ps))
                            (?B w p @ concat (map (?B w) ps))"
      by (intro list_emb_append_mono)
    then have main: "subseq (below n (map fst (mid1 @ mid2)) @ concat (map (?B w') (p # ps)))
                            (concat (map (?B w) (p # ps)))"
      using e' by (simp add: below_def)
    have thr: "subseq (thrown (mid1 @ mid2)) (ks1 @ ks2)"
      unfolding thrown_append using a(8) b(7) by (rule list_emb_append_mono)
    show ?thesis
      using a(1,7) b(1,2,5,6) all main thr e'
      by (intro exI[of _ "mid1 @ mid2"] exI[of _ "ks1 @ ks2"]) simp
  qed
qed

lemma processTaskQueue_partial:
  assumes "processTaskQueue E w = Some (out, w')"
      and "\<forall>c. disciplinedCb E c"
      and "\<forall>t\<in>set (pending w). task_id t < nextTaskId w"
  shows "subseq (below (nextTaskId w) (map fst out) @ below (nextTaskId w) (map task_id (pending w')))
                (map task_id (pending w))"
    and "below (nextTaskId w) (map task_id (pending w')) = []
           \<or> isScheduled w' \<and> currentFrameDeadline w' \<le> now w'"
    and "\<exists>ks. console w' = console w @ ks \<and> subseq (thrown out) ks"
proof -
  let ?n = "nextTaskId w"
  let ?w = "w\<lparr>isScheduled := False\<rparr>"
  have d: "drainFrom E [HIGH, NORMAL, LOW] [] ?w = Some (out, w')"
    using assms(1) by (simp add: processTaskQueue_def)
  obtain mid ks where r:
      "out = [] @ mid"
      "subseq (below ?n (map fst mid) @ concat (map (\<lambda>q. below ?n (map task_id (taskQueue w' q))) [HIGH, NORMAL, LOW]))
              (concat (map (\<lambda>q. below ?n (map task_id (taskQueue ?w q))) [HIGH, NORMAL, LOW]))"
      "concat (map (\<lambda>q. below ?n (map task_id (taskQueue w' q))) [HIGH, NORMAL, LOW]) = []
                \<or> isScheduled w' \<and> currentFrameDeadline w' \<le> now w'"
      "console w' = console ?w @ ks" "subseq (thrown mid) ks"
    using drainFrom_partial[OF d assms(2), of ?n] by auto
  have old: "below ?n (map task_id (pending w)) = map task_id (pending w)"
    using assms(3) by (simp add: below_def)
  have p: "\<And>v. concat (map (\<lambda>q. below ?n (map task_id (taskQueue v q))) [HIGH, NORMAL, LOW])
             = below ?n (map task_id (pending v))"
    by (simp add: pending_def below_def)
  have p0: "pending ?w = pending w" by (simp add: pending_def)
  show "subseq (below ?n (map fst out) @ below ?n (map task_id (pending w'))) (map task_id (pending w))"
    using r(1,2) unfolding p p0 old by simp
  show "below ?n (map task_id (pending w')) = [] \<or> isScheduled w' \<and> currentFrameDeadline w' \<le> now w'"
    using r(3) unfolding p by simp
  show "\<exists>ks. console w' = console w @ ks \<and> subseq (thrown out) ks"
    using r(1,4,5) by auto
qed

lemma scheduleAll_nextTaskId: "nextTaskId (scheduleAll xs w) = nextTaskId w + length xs"
proof (induction xs arbitrary: w)
  case Nil
  then show ?case by (simp add: scheduleAll_def)
next
  case (Cons x xs)
  obtain c q where x: "x = (c, q)" by (cases x)
  have "scheduleAll (x # xs) w = scheduleAll xs (snd (scheduleTask c q w))"
    by (simp add: scheduleAll_def x)
  then show ?case
    using Cons.IH[of "snd (scheduleTask c q w)"] by (simp add: scheduleTask_fields)
qed

lemma scheduled_ids: "t \<in> set (scheduled p n xs) \<Longrightarrow> task_id t < n + length xs"
  by (auto simp: scheduled_def in_set_enumerate_eq)

lemma pending_scheduleAll_old:
  assumes "\<forall>t\<in>set (pending w). task_id t < nextTaskId w"
  shows "\<forall>t\<in>set (pending (scheduleAll xs w)). task_id t < nextTaskId (scheduleAll xs w)"
proof
  fix t assume "t \<in> set (pending (scheduleAll xs w))"
  then consider "t \<in> set (pending w)" | p where "t \<in> set (scheduled p (nextTaskId w) xs)"
    by (auto simp: pending_def scheduleAll_queue)
  then show "task_id t < nextTaskId (scheduleAll xs w)"
  proof cases
    case 1
    then show ?thesis using assms by (auto simp: scheduleAll_nextTaskId)
  next
    case 2
    then show ?thesis using scheduled_ids by (auto simp: scheduleAll_nextTaskId)
  qed
qed

lemma subseq_front: "subseq (xs @ ys) zs \<Longrightarrow> subseq xs zs"
  by (metis append_Nil2 list_emb_Nil list_emb_append_mono subseq_order.refl subseq_order.trans)

section \<open>Scheduler: order of execution, throwing tasks\<close>

lemma scheduled_callbacks: "t \<in> set (scheduled p n xs) \<Longrightarrow> callback t \<in> fst ` set xs"
  by (auto simp: scheduled_def enumerate_eq_zip dest!: set_zip_rightD) force

lemma pending_scheduleAll:
  "pending (scheduleAll xs w) =
     (taskQueue w HIGH @ scheduled HIGH (nextTaskId w) xs)
   @ (taskQueue w NORMAL @ scheduled NORMAL (nextTaskId w) xs)
   @ (taskQueue w LOW @ scheduled LOW (nextTaskId w) xs)"
  by (simp add: pending_def scheduleAll_queue)

text \<open>
  C7. Tasks scheduled in any order, at any priorities, on top of what is already queued,
  and then a drain. The callbacks act on the scheduler only as \<open>scheduleTask\<close> and
  \<open>cancelTask\<close> do. If the drain returns, the tasks it executed among those scheduled
  before it, in the order of execution, are a subsequence of the HIGH queue followed by
  the NORMAL queue followed by the LOW queue, each queue holding its tasks in the order
  they were scheduled. If moreover the callbacks of those tasks schedule and cancel
  nothing, the drain does return, what it executed is a front part of that sequence which
  holds every HIGH task, and it is all of it unless the drain ran out of time (then a
  continuation is armed).
\<close>

theorem drain_runs_high_normal_low_each_fifo:
  assumes "\<forall>c. disciplinedCb E c"
      and "\<forall>t\<in>set (pending w). task_id t < nextTaskId w"
  shows "(\<forall>out w'. processTaskQueue E (scheduleAll xs w) = Some (out, w') \<longrightarrow>
            subseq (below (nextTaskId w + length xs) (map fst out))
              (map task_id
                ((taskQueue w HIGH @ scheduled HIGH (nextTaskId w) xs)
               @ (taskQueue w NORMAL @ scheduled NORMAL (nextTaskId w) xs)
               @ (taskQueue w LOW @ scheduled LOW (nextTaskId w) xs))))
       \<and> ((\<forall>t\<in>set (pending w). quietCb E (callback t)) \<and> (\<forall>x\<in>set xs. quietCb E (fst x)) \<longrightarrow>
            (\<exists>k out w'.
               processTaskQueue E (scheduleAll xs w) = Some (out, w')
             \<and> map fst out = map task_id (take k
                   ((taskQueue w HIGH @ scheduled HIGH (nextTaskId w) xs)
                  @ (taskQueue w NORMAL @ scheduled NORMAL (nextTaskId w) xs)
                  @ (taskQueue w LOW @ scheduled LOW (nextTaskId w) xs)))
             \<and> length (taskQueue w HIGH @ scheduled HIGH (nextTaskId w) xs) \<le> k
             \<and> (k = length (pending (scheduleAll xs w))
                  \<or> isScheduled w' \<and> currentFrameDeadline w' \<le> now w')))"
proof (intro conjI allI impI)
  let ?W = "scheduleAll xs w"
  fix out w' assume r: "processTaskQueue E ?W = Some (out, w')"
  have old: "\<forall>t\<in>set (pending ?W). task_id t < nextTaskId ?W"
    using assms(2) by (rule pending_scheduleAll_old)
  have "subseq (below (nextTaskId ?W) (map fst out) @ below (nextTaskId ?W) (map task_id (pending w')))
               (map task_id (pending ?W))"
    using r assms(1) old by (rule processTaskQueue_partial(1))
  then have "subseq (below (nextTaskId ?W) (map fst out)) (map task_id (pending ?W))"
    by (rule subseq_front)
  then show "subseq (below (nextTaskId w + length xs) (map fst out))
              (map task_id
                ((taskQueue w HIGH @ scheduled HIGH (nextTaskId w) xs)
               @ (taskQueue w NORMAL @ scheduled NORMAL (nextTaskId w) xs)
               @ (taskQueue w LOW @ scheduled LOW (nextTaskId w) xs)))"
    by (simp only: scheduleAll_nextTaskId pending_scheduleAll)
next
  let ?W = "scheduleAll xs w"
  assume q: "(\<forall>t\<in>set (pending w). quietCb E (callback t)) \<and> (\<forall>x\<in>set xs. quietCb E (fst x))"
  have "\<forall>t\<in>set (pending ?W). quietCb E (callback t)"
  proof
    fix t assume "t \<in> set (pending ?W)"
    then consider "t \<in> set (pending w)" | p where "t \<in> set (scheduled p (nextTaskId w) xs)"
      by (auto simp: pending_def scheduleAll_queue)
    then show "quietCb E (callback t)"
    proof cases
      case 1 then show ?thesis using q by blast
    next
      case 2
      then have "callback t \<in> fst ` set xs" by (rule scheduled_callbacks)
      then show ?thesis using q by auto
    qed
  qed
  then obtain k out w' where r:
      "processTaskQueue E ?W = Some (out, w')"
      "list_all2 (outcomeOf E) (take k (pending ?W)) out"
      "length (taskQueue ?W HIGH) \<le> k"
      "k = length (pending ?W) \<or> isScheduled w' \<and> currentFrameDeadline w' \<le> now w'"
    using processTaskQueue_quiet[of ?W E] by blast
  have m: "map fst out = map task_id (take k (pending ?W))"
    using r(2) by (rule outcomeOf_ids)
  show "\<exists>k out w'.
               processTaskQueue E (scheduleAll xs w) = Some (out, w')
             \<and> map fst out = map task_id (take k
                   ((taskQueue w HIGH @ scheduled HIGH (nextTaskId w) xs)
                  @ (taskQueue w NORMAL @ scheduled NORMAL (nextTaskId w) xs)
                  @ (taskQueue w LOW @ scheduled LOW (nextTaskId w) xs)))
             \<and> length (taskQueue w HIGH @ scheduled HIGH (nextTaskId w) xs) \<le> k
             \<and> (k = length (pending (scheduleAll xs w))
                  \<or> isScheduled w' \<and> currentFrameDeadline w' \<le> now w')"
    unfolding scheduleAll_queue[symmetric]
    using r(1,3,4) m unfolding pending_def by blast
qed

text \<open>The effects and the tasks of the counting application leave the scheduler alone.\<close>

lemma countingEnv_effect:
  "fst (effect countingEnv e w) = None
   \<and> taskQueue (snd (effect countingEnv e w)) = taskQueue w
   \<and> nextTaskId (snd (effect countingEnv e w)) = nextTaskId w
   \<and> console (snd (effect countingEnv e w)) = console w"
  by (simp add: effect_def countingEnv_def read_def split: option.splits prod.splits)

lemma countingEnv_subscribers:
  "taskQueue (snd (runSubscribers countingEnv es w)) = taskQueue w
   \<and> nextTaskId (snd (runSubscribers countingEnv es w)) = nextTaskId w
   \<and> console (snd (runSubscribers countingEnv es w)) = console w"
proof (induction es arbitrary: w)
  case Nil
  then show ?case by simp
next
  case (Cons e es)
  obtain w1 where e: "effect countingEnv e w = (None, w1)"
    using countingEnv_effect[of e w] by (cases "effect countingEnv e w") simp
  then show ?case using Cons.IH[of w1] countingEnv_effect[of e w] by simp
qed

lemma countingEnv_callback:
  "taskQueue (snd (runCallback countingEnv c w)) = taskQueue w
   \<and> nextTaskId (snd (runCallback countingEnv c w)) = nextTaskId w
   \<and> console (snd (runCallback countingEnv c w)) = console w"
proof (cases c)
  case (Notify s)
  then show ?thesis using countingEnv_subscribers by (simp split: option.splits)
next
  case (UserTask u)
  then show ?thesis by (simp add: countingEnv_def)
qed

lemma countingEnv_quiet: "quietCb countingEnv c"
  using countingEnv_callback[of c] by (simp add: quietCb_def)

lemma schedulerStep_same:
  assumes "taskQueue w' = taskQueue w" "nextTaskId w' = nextTaskId w" "console w' = console w"
  shows "schedulerStep w w'"
  unfolding schedulerStep_def
proof (intro conjI allI)
  fix p
  show "\<exists>kept new. taskQueue w' p = kept @ new \<and> subseq kept (taskQueue w p)
          \<and> (\<forall>t\<in>set new. nextTaskId w \<le> task_id t)"
    using assms(1) by (intro exI[of _ "taskQueue w p"] exI[of _ "[]"]) simp
qed (simp_all add: assms)

text \<open>A call of \<open>scheduleTask\<close> is a step of that kind, after any step that left the scheduler alone.\<close>

lemma schedulerStep_scheduleTask:
  assumes "taskQueue w1 = taskQueue w" "nextTaskId w1 = nextTaskId w" "console w1 = console w"
  shows "schedulerStep w (snd (scheduleTask c q w1))"
  unfolding schedulerStep_def
proof (intro conjI allI)
  fix p
  show "\<exists>kept new. taskQueue (snd (scheduleTask c q w1)) p = kept @ new \<and> subseq kept (taskQueue w p)
          \<and> (\<forall>t\<in>set new. nextTaskId w \<le> task_id t)"
    using assms
    by (intro exI[of _ "taskQueue w p"]
          exI[of _ "if p = q then [\<lparr>task_id = nextTaskId w, callback = c, priority = q\<rparr>] else []"])
       (simp add: scheduleTask_fields)
qed (simp_all add: assms scheduleTask_def Let_def)

text \<open>So is a call of \<open>cancelTask\<close>.\<close>

lemma removeFirstId_subseq: "removeFirstId i q = Some q' \<Longrightarrow> subseq q' q"
proof (induction q arbitrary: q')
  case Nil
  then show ?case by simp
next
  case (Cons t ts)
  show ?case
  proof (cases "task_id t = i")
    case True
    then have "q' = ts" using Cons.prems by simp
    then show ?thesis by (simp add: list_emb_Cons)
  next
    case False
    then obtain r where r: "removeFirstId i ts = Some r" "q' = t # r"
      using Cons.prems by auto
    then show ?thesis using Cons.IH[OF r(1)] by simp
  qed
qed

lemma schedulerStep_cancelIn: "schedulerStep w (snd (cancelIn ps i w))"
proof (induction ps)
  case Nil
  then show ?case by (simp add: schedulerStep_same)
next
  case (Cons p ps)
  show ?case
  proof (cases "removeFirstId i (taskQueue w p)")
    case None
    then show ?thesis using Cons.IH by simp
  next
    case (Some q')
    have "schedulerStep w (w\<lparr>taskQueue := (taskQueue w)(p := q')\<rparr>)"
      unfolding schedulerStep_def
    proof (intro conjI allI)
      fix q
      show "\<exists>kept new. taskQueue (w\<lparr>taskQueue := (taskQueue w)(p := q')\<rparr>) q = kept @ new
              \<and> subseq kept (taskQueue w q) \<and> (\<forall>t\<in>set new. nextTaskId w \<le> task_id t)"
        using removeFirstId_subseq[OF Some]
        by (intro exI[of _ "if q = p then q' else taskQueue w q"] exI[of _ "[]"]) simp
    qed simp_all
    then show ?thesis using Some by simp
  qed
qed

lemma schedulerStep_cancelTask: "schedulerStep w (snd (cancelTask i w))"
  unfolding cancelTask_def by (rule schedulerStep_cancelIn)

lemma countingEnv_disciplined: "\<forall>c. disciplinedCb countingEnv c"
  using countingEnv_callback by (simp add: disciplinedCb_def schedulerStep_same)

lemma chainEnv_disciplined: "\<forall>c. disciplinedCb chainEnv c"
proof
  fix c
  show "disciplinedCb chainEnv c"
  proof (cases c)
    case (Notify s)
    have "\<And>es w. runSubscribers chainEnv es w = (None, if es = [] then w else w\<lparr>currentEffect := None\<rparr>)"
    proof -
      fix es and w :: "nat world"
      show "runSubscribers chainEnv es w = (None, if es = [] then w else w\<lparr>currentEffect := None\<rparr>)"
        by (induction es arbitrary: w) (simp_all add: effect_def chainEnv_def)
    qed
    then show ?thesis using Notify
      by (auto simp: disciplinedCb_def intro!: schedulerStep_same split: option.splits)
  next
    case (UserTask u)
    show ?thesis
      unfolding disciplinedCb_def UserTask
    proof
      fix w :: "nat world"
      show "schedulerStep w (snd (runCallback chainEnv (UserTask u) w))"
        by (cases "u < 3") (simp_all add: chainEnv_def schedulerStep_scheduleTask schedulerStep_same)
    qed
  qed
qed

theorem drain_runs_high_normal_low_each_fifo_witness:
  "\<exists>k out w'.
     processTaskQueue countingEnv (scheduleAll mixedOrder (world0 0)) = Some (out, w')
   \<and> map fst out = take k [3, 5, 2, 4, 1] \<and> 2 \<le> k
   \<and> subseq (below 6 (map fst out)) [3, 5, 2, 4, 1]
   \<and> map_option (map fst \<circ> fst) (processTaskQueue chainEnv chainStart) = Some [1, 2, 3, 4]
   \<and> (\<exists>out w'. processTaskQueue chainEnv chainStart = Some (out, w')
                  \<and> subseq (below 2 (map fst out)) [1])"
proof -
  have c1: "\<forall>t\<in>set (pending (world0 0 :: nat world)). task_id t < nextTaskId (world0 0 :: nat world)"
    by (simp add: pending_def world0_def)
  have c2: "map_option (map fst \<circ> fst) (processTaskQueue chainEnv chainStart) = Some [1, 2, 3, 4]"
    by code_simp
  then obtain cout cw where c3: "processTaskQueue chainEnv chainStart = Some (cout, cw)"
    by (cases "processTaskQueue chainEnv chainStart") auto
  have "subseq (below (nextTaskId (world0 0 :: nat world) + length [(UserTask 0, NORMAL)]) (map fst cout))
          (map task_id
             ((taskQueue (world0 0 :: nat world) HIGH @ scheduled HIGH (nextTaskId (world0 0 :: nat world)) [(UserTask 0, NORMAL)])
            @ (taskQueue (world0 0 :: nat world) NORMAL @ scheduled NORMAL (nextTaskId (world0 0 :: nat world)) [(UserTask 0, NORMAL)])
            @ (taskQueue (world0 0 :: nat world) LOW @ scheduled LOW (nextTaskId (world0 0 :: nat world)) [(UserTask 0, NORMAL)])))"
    using drain_runs_high_normal_low_each_fifo[OF chainEnv_disciplined c1, of "[(UserTask 0, NORMAL)]",
             THEN conjunct1, rule_format, of cout cw] c3
    by (simp add: chainStart_def)
  then have c4: "subseq (below 2 (map fst cout)) [1]"
    by (simp add: world0_def scheduled_def numeral_2_eq_2)
  have 1: "\<forall>t\<in>set (pending (world0 0 :: nat world)). task_id t < nextTaskId (world0 0 :: nat world)"
    by (simp add: pending_def world0_def)
  have 2: "(\<forall>t\<in>set (pending (world0 0 :: nat world)). quietCb countingEnv (callback t))
           \<and> (\<forall>x\<in>set mixedOrder. quietCb countingEnv (fst x))"
    by (simp add: countingEnv_quiet)
  have 3: "nextTaskId (world0 0 :: nat world) = 1" "\<And>p. taskQueue (world0 0 :: nat world) p = []"
    by (simp_all add: world0_def)
  have 4: "map task_id (scheduled HIGH 1 mixedOrder) = [3, 5]"
          "map task_id (scheduled NORMAL 1 mixedOrder) = [2, 4]"
          "map task_id (scheduled LOW 1 mixedOrder) = [1]"
    by (simp_all add: mixedOrder_def scheduled_def)
  have 5: "length (scheduled HIGH 1 mixedOrder) = 2" "length mixedOrder = 5"
    by (simp_all add: mixedOrder_def scheduled_def)
  note main = drain_runs_high_normal_low_each_fifo[OF countingEnv_disciplined 1, of mixedOrder]
  obtain k out w' where r:
    "processTaskQueue countingEnv (scheduleAll mixedOrder (world0 0)) = Some (out, w')"
    "map fst out = take k (map task_id (scheduled HIGH 1 mixedOrder)
        @ map task_id (scheduled NORMAL 1 mixedOrder) @ map task_id (scheduled LOW 1 mixedOrder))"
    "length (scheduled HIGH 1 mixedOrder) \<le> k"
    using main[THEN conjunct2, THEN mp, OF 2] unfolding 3 by (auto simp: take_map)
  have "subseq (below (1 + 5) (map fst out))
          (map task_id (scheduled HIGH 1 mixedOrder)
        @ map task_id (scheduled NORMAL 1 mixedOrder) @ map task_id (scheduled LOW 1 mixedOrder))"
    using main[THEN conjunct1, rule_format, OF r(1)] unfolding 3 5 by simp
  then show ?thesis using r c2 c3 c4 unfolding 4 5 by auto
qed







section \<open>Reactivity: batching, disposal, tracking, updaters\<close>

text \<open>
  C1. Two signals are written in one turn, both read by one effect. The effect has run
  once, at creation; each write has queued a task of its own (tasks 1 and 2), and the drain
  runs the effect once for each: three runs in all, two of them in the drain.
\<close>

theorem two_writes_in_one_turn_run_effect_twice:
  "fst twoSignalsOneEffect = Inr (EffectFn 0)
   \<and> user twoWrites = 1
   \<and> map_option (\<lambda>(out, w). (map fst out, user w)) (processTaskQueue countingEnv twoWrites)
       = Some ([1, 2], 3)"
  by code_simp

text \<open>
  C2. The function \<open>createEffect\<close> returns is the effect itself. Calling it runs the body
  a second time and leaves the effect subscribed to both signals; a write that follows
  runs the body a third time.
\<close>

theorem returned_function_reruns_and_stays_subscribed:
  "fst twoSignalsOneEffect = Inr (EffectFn 0)
   \<and> user (snd twoSignalsOneEffect) = 1
   \<and> user disposed = 2
   \<and> map_option subscribers (signals disposed 0) = Some [0]
   \<and> map_option subscribers (signals disposed 1) = Some [0]
   \<and> map_option (\<lambda>(out, w). user w) (processTaskQueue countingEnv disposedThenWrite) = Some 3"
  by code_simp

text \<open>
  C3. The effect read \<open>cond\<close> and \<open>a\<close> on its first run; after \<open>cond\<close> has become
  false the drain runs it again, and that run reads \<open>cond\<close> and \<open>b\<close> only. The effect
  is then still in the subscriber set of \<open>a\<close>.
\<close>

theorem untaken_branch_subscription_is_kept:
  "map_option (\<lambda>(out, w). (user w, map (\<lambda>s. map_option subscribers (signals w s)) [0, 1, 2]))
     (processTaskQueue branchEnv branchFlipped)
   = Some ([0, 2], [Some [0], Some [0], Some [0]])"
  by code_simp

text \<open>
  C10, as stated, fails: the updater \<open>prev => g\<close> passed to the writer leaves the function
  \<open>g\<close> stored in the signal.
\<close>

theorem writer_stores_function_returned_by_updater:
  "map_option sv_value (signals (write' countingEnv 0 (VFun 0) oneSignal) 0) = Some (VFun 7)"
  by code_simp

lemma scheduleTask_signals: "signals (snd (scheduleTask c p w)) = signals w"
  by (simp add: scheduleTask_def Let_def)

text \<open>
  C10, amended. A function \<open>f\<close> passed to the writer of a signal is called with the
  stored value, and the signal then holds what \<open>f\<close> returned (whatever kind of value
  that is).
\<close>

theorem writer_stores_updater_result:
  assumes "signals w s = Some sg"
  shows "map_option sv_value (signals (write' E s (VFun f) w) s) = Some (call E f (sv_value sg))"
  using assms
  by (auto simp: write'_def resolve_def strictEq_def scheduleTask_signals Let_def)

theorem writer_stores_updater_result_witness:
  "map_option sv_value (signals (write' countingEnv 0 (VFun 3) oneSignal) 0)
     = Some (call countingEnv 3 (VNum 0))"
proof -
  have "signals oneSignal 0 = Some \<lparr>sv_value = VNum 0, subscribers = []\<rparr>"
    by (simp add: oneSignal_def createSignal_def world0_def)
  from writer_stores_updater_result[OF this] show ?thesis by simp
qed

section \<open>Quiet steps: prop calls leave the shape of the document alone\<close>























section \<open>The passes of updateChildren when every child is met again\<close>


lemma childKeys_length: "length (childKeys C i cs) = length cs"
  by (induction cs arbitrary: i) simp_all











section \<open>Diffing aligned elements\<close>





section \<open>Reconciler: replacement, reordering, identical trees, refs\<close>













text \<open>
  C9. \<open><div ref={f}/>\<close> mounted by \<open>mount\<close>: \<open>f\<close> is called with the node during the
  mount pass, before the node is in the document, and nothing is handed to
  \<open>afterLayout\<close>. Unmounting removes the node and does not call \<open>f\<close> again:
  \<open>unmount\<close> looks for the function in \<open>element.ref\<close>, and an element has no such
  property. (\<open>createDOMNode\<close>, for the same element, calls nothing and hands
  \<open>() => ref(node)\<close> to \<open>afterLayout\<close>.)
\<close>

theorem mount_calls_ref_at_once_and_unmount_never:
  "outcome emptyPage refMounted
     = Some (Inr (Mounted divWithRef 1 [] [],
                  [CreateElement 1 ''div'', CallFunction 5 [ArgNode 1], AppendChild 0 1], [], 1))
   \<and> map_option (map_sum id (since emptyPage)) refUnmounted
     = Some (Inr ([CreateElement 1 ''div'', CallFunction 5 [ArgNode 1], AppendChild 0 1,
                   RemoveChild 0 1], [], 1))
   \<and> outcome emptyPage (createDOMNode 2 twoComponents divWithRef None emptyPage)
     = Some (Inr ((1, divWithRef), [CreateElement 1 ''div''], [RefFrame 5 (Some 1)], 1))"
  by code_simp

end
